theory Spec2Isabelle
  imports Complex_Main
begin

section \<open>Anchor boxes and Intersection over Union (models/rpn\_utils.py)\<close>

text \<open>
  The module is Python 2 code (it uses \<open>xrange\<close>) on numpy arrays of floating-point
  numbers. An array is modelled by its shape and its elements in row-major (C) order, as
  numpy stores it. The elements are real numbers: the arithmetic of the model is exact, so
  every statement below is about the geometry the code computes, not about rounding errors
  or overflow of the machine's floats. Errors are values: a function that may raise returns
  \<open>Inl\<close> of the error raised or \<open>Inr\<close> of its result.
\<close>

subsection \<open>Arrays\<close>

datatype error = ValueError | IndexError | TypeError | FloatingPointError | Unmodelled

datatype 'a array = NdArray (shape: "nat list") (data: "'a list")

type_synonym ndarray = "real array"

definition ndim :: "'a array \<Rightarrow> nat" where
  "ndim a = length (shape a)"

text \<open>
  A box set is an array of shape \<open>(n, 4)\<close>, one row of four numbers per box, that holds
  as many elements as its shape says.
\<close>

definition is_boxes :: "nat \<Rightarrow> ndarray \<Rightarrow> bool" where
  "is_boxes n a = (shape a = [n, 4] \<and> length (data a) = n * 4)"

text \<open>
  The IoU functions also take a single box, an array of shape \<open>(4,)\<close>, for a set of one.
\<close>

definition is_box_input :: "nat \<Rightarrow> ndarray \<Rightarrow> bool" where
  "is_box_input n a = ((shape a = [4] \<and> n = 1 \<and> length (data a) = 4) \<or> is_boxes n a)"

text \<open>Row \<open>i\<close> of a box set, and the array of the rows given.\<close>

definition box :: "ndarray \<Rightarrow> nat \<Rightarrow> real list" where
  "box a i = take 4 (drop (i * 4) (data a))"

definition boxes_of :: "real list list \<Rightarrow> ndarray" where
  "boxes_of rows = NdArray [length rows, 4] (concat rows)"

text \<open>Sequencing of steps that may raise: the first error ends the computation.\<close>

definition bind_err :: "error + 'a \<Rightarrow> ('a \<Rightarrow> error + 'b) \<Rightarrow> error + 'b" where
  "bind_err x f = (case x of Inl e \<Rightarrow> Inl e | Inr v \<Rightarrow> f v)"

text \<open>\<open>chunks d m xs\<close> cuts \<open>xs\<close> into \<open>d\<close> consecutive blocks of \<open>m\<close> elements.\<close>

definition chunks :: "nat \<Rightarrow> nat \<Rightarrow> 'a list \<Rightarrow> 'a list list" where
  "chunks d m xs = map (\<lambda>i. take m (drop (i * m) xs)) [0..<d]"

text \<open>
  Broadcasting, as numpy defines it: the shorter shape is padded with ones on the left,
  two extents are compatible when they are equal or one of them is 1, and the result has
  the larger extent at each position.
\<close>

definition pad_shape :: "nat \<Rightarrow> nat list \<Rightarrow> nat list" where
  "pad_shape n s = replicate (n - length s) 1 @ s"

definition broadcast_shape :: "nat list \<Rightarrow> nat list \<Rightarrow> nat list option" where
  "broadcast_shape s t =
     (let n = max (length s) (length t); s' = pad_shape n s; t' = pad_shape n t
      in if list_all2 (\<lambda>a b. a = b \<or> a = 1 \<or> b = 1) s' t'
         then Some (map2 (\<lambda>a b. if a = 1 then b else a) s' t')
         else None)"

fun broadcast_to :: "nat list \<Rightarrow> nat list \<Rightarrow> 'a list \<Rightarrow> 'a list" where
  "broadcast_to [] ts xs = xs"
| "broadcast_to (d # ds) [] xs = xs"
| "broadcast_to (d # ds) (t # ts) xs =
     (if d = t then concat (map (broadcast_to ds ts) (chunks d (prod_list ds) xs))
      else concat (replicate t (broadcast_to ds ts xs)))"

text \<open>An elementwise binary operation \<open>a op b\<close> of two arrays, with broadcasting.\<close>

definition np_binop :: "(real \<Rightarrow> real \<Rightarrow> real) \<Rightarrow> ndarray \<Rightarrow> ndarray \<Rightarrow> error + ndarray" where
  "np_binop f a b =
     (case broadcast_shape (shape a) (shape b) of
        None \<Rightarrow> Inl ValueError
      | Some sh \<Rightarrow>
          Inr (NdArray sh
            (map2 f (broadcast_to (pad_shape (length sh) (shape a)) sh (data a))
                    (broadcast_to (pad_shape (length sh) (shape b)) sh (data b)))))"

text \<open>
  The in-place form \<open>a op= b\<close>: the result is written into \<open>a\<close>, so the broadcast shape
  has to be the shape of \<open>a\<close>.
\<close>

definition np_inplace :: "(real \<Rightarrow> real \<Rightarrow> real) \<Rightarrow> ndarray \<Rightarrow> ndarray \<Rightarrow> error + ndarray" where
  "np_inplace f a b =
     (if broadcast_shape (shape a) (shape b) = Some (shape a) then np_binop f a b
      else Inl ValueError)"

text \<open>\<open>c * a\<close> for a Python number \<open>c\<close>.\<close>

definition np_scale :: "real \<Rightarrow> ndarray \<Rightarrow> ndarray" where
  "np_scale c a = NdArray (shape a) (map (\<lambda>x. c * x) (data a))"

text \<open>
  The slice \<open>a[:, k]\<close>. It needs two dimensions at least; arrays of three and more
  dimensions are outside the model (a box set has two).
\<close>

definition getcol :: "'a array \<Rightarrow> nat \<Rightarrow> error + 'a array" where
  "getcol a k =
     (case shape a of
        [] \<Rightarrow> Inl IndexError
      | [n] \<Rightarrow> Inl IndexError
      | [n, m] \<Rightarrow>
          if k < m then Inr (NdArray [n] (map (\<lambda>i. data a ! (i * m + k)) [0..<n]))
          else Inl IndexError
      | _ \<Rightarrow> Inl Unmodelled)"

text \<open>The slice \<open>a[:k]\<close>: the first \<open>k\<close> entries along the first axis.\<close>

definition getrows :: "'a array \<Rightarrow> nat \<Rightarrow> error + 'a array" where
  "getrows a k =
     (case shape a of
        [] \<Rightarrow> Inl IndexError
      | d # ds \<Rightarrow> Inr (NdArray (min d k # ds) (take (k * prod_list ds) (data a))))"

text \<open>
  The assignment \<open>a[:, k] = v\<close>. numpy drops leading extents 1 of the value while it has
  more dimensions than the target, then broadcasts it to the target's shape \<open>(n,)\<close>; a
  value that does not fit raises.
\<close>

fun strip_ones :: "nat \<Rightarrow> nat list \<Rightarrow> nat list" where
  "strip_ones n [] = []"
| "strip_ones n (d # ds) = (if n < length (d # ds) \<and> d = 1 then strip_ones n ds else d # ds)"

definition setcol :: "ndarray \<Rightarrow> nat \<Rightarrow> ndarray \<Rightarrow> error + ndarray" where
  "setcol a k v =
     (case shape a of
        [] \<Rightarrow> Inl IndexError
      | [n] \<Rightarrow> Inl IndexError
      | [n, m] \<Rightarrow>
          if \<not> k < m then Inl IndexError
          else let s = strip_ones 1 (shape v)
               in if length s \<le> 1 \<and> broadcast_shape s [n] = Some [n]
                  then let vals = broadcast_to (pad_shape 1 s) [n] (data v)
                       in Inr (NdArray [n, m]
                            (map (\<lambda>p. if p mod m = k then vals ! (p div m) else data a ! p)
                               [0..<n * m]))
                  else Inl ValueError
      | _ \<Rightarrow> Inl Unmodelled)"

subsection \<open>The store\<close>

text \<open>
  Arrays are objects: a variable holds a reference, and \<open>np.copy\<close> makes a new object.
  The store lists the objects; a reference is an index into it, and a variable's reference
  is always one of an object of the store.
\<close>

type_synonym store = "ndarray list"

definition np_copy :: "store \<Rightarrow> nat \<Rightarrow> nat \<times> store" where
  "np_copy h p = (length h, h @ [h ! p])"

text \<open>
  A statement that updates one array either raises, before it has written anything, or
  yields the array updated. A block runs its statements in order on the array and stops
  at the first that raises; it returns the error, if any, and the array as left behind.
\<close>

type_synonym stmt = "ndarray \<Rightarrow> error + ndarray"

fun run_stmts :: "stmt list \<Rightarrow> ndarray \<Rightarrow> error option \<times> ndarray" where
  "run_stmts [] a = (None, a)"
| "run_stmts (s # ss) a = (case s a of Inl e \<Rightarrow> (Some e, a) | Inr a' \<Rightarrow> run_stmts ss a')"

text \<open>\<open>a[:, k] -= c * a[:, j]\<close> and \<open>a[:, k] += c * a[:, j]\<close>, and \<open>a[:, k] += a[:, j]\<close>.\<close>

definition isub_col_scaled :: "nat \<Rightarrow> real \<Rightarrow> nat \<Rightarrow> stmt" where
  "isub_col_scaled k c j a =
     bind_err (getcol a k) (\<lambda>target.
     bind_err (getcol a j) (\<lambda>aj.
     bind_err (np_inplace (\<lambda>x y. x - y) target (np_scale c aj)) (\<lambda>r.
     setcol a k r)))"

definition iadd_col_scaled :: "nat \<Rightarrow> real \<Rightarrow> nat \<Rightarrow> stmt" where
  "iadd_col_scaled k c j a =
     bind_err (getcol a k) (\<lambda>target.
     bind_err (getcol a j) (\<lambda>aj.
     bind_err (np_inplace (\<lambda>x y. x + y) target (np_scale c aj)) (\<lambda>r.
     setcol a k r)))"

definition iadd_col :: "nat \<Rightarrow> nat \<Rightarrow> stmt" where
  "iadd_col k j a =
     bind_err (getcol a k) (\<lambda>target.
     bind_err (getcol a j) (\<lambda>aj.
     bind_err (np_inplace (\<lambda>x y. x + y) target aj) (\<lambda>r.
     setcol a k r)))"

text \<open>\<open>a[:, k] = a[:r] - a[:, j]\<close>: the first \<open>r\<close> rows minus column \<open>j\<close>.\<close>

definition set_col_rows_minus_col :: "nat \<Rightarrow> nat \<Rightarrow> nat \<Rightarrow> stmt" where
  "set_col_rows_minus_col k r j a =
     bind_err (getrows a r) (\<lambda>rows.
     bind_err (getcol a j) (\<lambda>aj.
     bind_err (np_binop (\<lambda>x y. x - y) rows aj) (\<lambda>v.
     setcol a k v)))"

subsection \<open>Coordinate conversion\<close>

text \<open>
  \<open>anchors_whctrs_to_minmax(anchors, in_place)\<close> and
  \<open>anchors_minmax_to_whctrs(anchors, in_place)\<close>. Each takes the store and a reference,
  copies the array unless \<open>in_place\<close>, runs its four statements on the array the local
  variable refers to, and returns that reference, or the error raised, with the store.
\<close>

definition run_on :: "store \<Rightarrow> nat \<Rightarrow> bool \<Rightarrow> stmt list \<Rightarrow> (error + nat) \<times> store" where
  "run_on h anchors in_place body =
     (let (anchors, h) = (if \<not> in_place then np_copy h anchors else (anchors, h));
          (exc, arr) = run_stmts body (h ! anchors);
          h = h[anchors := arr]
      in case exc of Some e \<Rightarrow> (Inl e, h) | None \<Rightarrow> (Inr anchors, h))"

definition anchors_whctrs_to_minmax :: "store \<Rightarrow> nat \<Rightarrow> bool \<Rightarrow> (error + nat) \<times> store" where
  "anchors_whctrs_to_minmax h anchors in_place =
     run_on h anchors in_place
       [isub_col_scaled 0 (1/2) 2,
        isub_col_scaled 1 (1/2) 3,
        iadd_col 2 0,
        iadd_col 3 1]"

definition anchors_minmax_to_whctrs :: "store \<Rightarrow> nat \<Rightarrow> bool \<Rightarrow> (error + nat) \<times> store" where
  "anchors_minmax_to_whctrs h anchors in_place =
     run_on h anchors in_place
       [set_col_rows_minus_col 2 2 0,
        set_col_rows_minus_col 3 3 1,
        iadd_col_scaled 0 (1/2) 2,
        iadd_col_scaled 1 (1/2) 3]"

subsection \<open>Tiling, reshaping and squeezing\<close>

text \<open>
  \<open>np.reshape\<close> keeps the elements in order and raises when the new shape holds another
  number of them. \<open>np.squeeze\<close> removes every extent 1 from the shape.
\<close>

definition np_reshape :: "'a array \<Rightarrow> nat list \<Rightarrow> error + 'a array" where
  "np_reshape a sh =
     (if prod_list sh = length (data a) then Inr (NdArray sh (data a)) else Inl ValueError)"

definition np_squeeze :: "'a array \<Rightarrow> 'a array" where
  "np_squeeze a = NdArray (filter (\<lambda>d. d \<noteq> 1) (shape a)) (data a)"

text \<open>
  \<open>np.tile(a, reps)\<close>: the shorter of the shape and \<open>reps\<close> is padded with ones on the
  left, and the array is repeated \<open>reps[k]\<close> times along each axis \<open>k\<close>.
\<close>

fun tile_data :: "nat list \<Rightarrow> nat list \<Rightarrow> 'a list \<Rightarrow> 'a list" where
  "tile_data [] rs xs = xs"
| "tile_data (d # ds) [] xs = xs"
| "tile_data (d # ds) (r # rs) xs =
     concat (replicate r (concat (map (tile_data ds rs) (chunks d (prod_list ds) xs))))"

definition np_tile :: "'a array \<Rightarrow> nat list \<Rightarrow> 'a array" where
  "np_tile a reps =
     (let n = max (ndim a) (length reps); sh = pad_shape n (shape a); rs = pad_shape n reps
      in NdArray (map2 (\<lambda>d r. d * r) sh rs) (tile_data sh rs (data a)))"

text \<open>\<open>a.shape[0]\<close>, which raises for an array of no dimension.\<close>

definition shape0 :: "'a array \<Rightarrow> error + nat" where
  "shape0 a = (case shape a of [] \<Rightarrow> Inl IndexError | d # ds \<Rightarrow> Inr d)"

text \<open>The four columns \<open>a[:, 0]\<close>, ..., \<open>a[:, 3]\<close> of an array, as lists of values.\<close>

definition columns :: "'a array \<Rightarrow> error + 'a list \<times> 'a list \<times> 'a list \<times> 'a list" where
  "columns a =
     bind_err (getcol a 0) (\<lambda>c0.
     bind_err (getcol a 1) (\<lambda>c1.
     bind_err (getcol a 2) (\<lambda>c2.
     bind_err (getcol a 3) (\<lambda>c3.
     Inr (data c0, data c1, data c2, data c3)))))"

text \<open>
  The division \<open>x / y\<close> of two arrays of one shape. Where a divisor is zero, numpy's
  floating-point division faults: it yields \<open>inf\<close> or \<open>nan\<close> and signals a
  floating-point error (a warning or, under \<open>np.seterr\<close>, an exception). The model
  returns the fault as an error.
\<close>

definition np_divide :: "real list \<Rightarrow> real list \<Rightarrow> error + real list" where
  "np_divide xs ys =
     (if 0 \<in> set ys then Inl FloatingPointError else Inr (map2 (\<lambda>x y. x / y) xs ys))"

text \<open>\<open>a[mask] = c\<close> for a boolean mask of the shape of \<open>a\<close>.\<close>

definition set_where :: "bool list \<Rightarrow> real \<Rightarrow> real list \<Rightarrow> real list" where
  "set_where msk c xs = map2 (\<lambda>m x. if m then c else x) msk xs"

subsection \<open>Pairwise IoU on numpy arrays\<close>

text \<open>
  \<open>numpy_IoU_xyctrs(bb1, bb2)\<close> and \<open>numpy_IoU_minmax(bb1, bb2)\<close>. After the tiling both
  \<open>bb1_arr\<close> and \<open>bb2_arr\<close> have \<open>n_1 * n_2\<close> rows, so all column slices have the shape
  \<open>(n_1 * n_2,)\<close> and the arithmetic on them is elementwise, written with \<open>map2\<close>.
\<close>

definition numpy_IoU_xyctrs :: "ndarray \<Rightarrow> ndarray \<Rightarrow> error + ndarray" where
  "numpy_IoU_xyctrs bb1 bb2 =
     bind_err (if ndim bb1 = 1 then np_reshape bb1 (1 # shape bb1) else Inr bb1) (\<lambda>bb1.
     bind_err (if ndim bb2 = 1 then np_reshape bb2 (1 # shape bb2) else Inr bb2) (\<lambda>bb2.
     bind_err (shape0 bb1) (\<lambda>n_1.
     bind_err (shape0 bb2) (\<lambda>n_2.
     bind_err (np_reshape (np_tile bb1 [1, n_2]) [n_1 * n_2, 4]) (\<lambda>bb1_arr.
     let bb2_arr = np_tile bb2 [n_1, 1] in
     bind_err (columns bb1_arr) (\<lambda>(b1_0, b1_1, b1_2, b1_3).
     bind_err (columns bb2_arr) (\<lambda>(b2_0, b2_1, b2_2, b2_3).
     let x1 = map2 max (map2 (\<lambda>c w. c - 1/2 * w) b1_0 b1_2) (map2 (\<lambda>c w. c - 1/2 * w) b2_0 b2_2);
         y1 = map2 max (map2 (\<lambda>c h. c - 1/2 * h) b1_1 b1_3) (map2 (\<lambda>c h. c - 1/2 * h) b2_1 b2_3);
         x2 = map2 min (map2 (\<lambda>c w. c + 1/2 * w) b1_0 b1_2) (map2 (\<lambda>c w. c + 1/2 * w) b2_0 b2_2);
         y2 = map2 min (map2 (\<lambda>c h. c + 1/2 * h) b1_1 b1_3) (map2 (\<lambda>c h. c + 1/2 * h) b2_1 b2_3);
         w = map2 (\<lambda>a b. a - b) x2 x1;
         h = map2 (\<lambda>a b. a - b) y2 y1;
         inter = map2 (\<lambda>a b. a * b) w h;
         aarea = map2 (\<lambda>a b. a * b) b1_3 b1_2;
         barea = map2 (\<lambda>a b. a * b) b2_3 b2_2;
         denom = map2 (\<lambda>a b. a - b) (map2 (\<lambda>a b. a + b) aarea barea) inter;
         mask' = map (\<lambda>d. d = 0) denom;
         denom = set_where mask' (1/10) denom
     in bind_err (np_divide inter denom) (\<lambda>IoU.
     let IoU = set_where mask' 0 IoU;
         IoU = set_where (map (\<lambda>v. v \<le> 0) w) 0 IoU;
         IoU = set_where (map (\<lambda>v. v \<le> 0) h) 0 IoU
     in bind_err (np_reshape (NdArray [n_1 * n_2] IoU) [n_1, n_2]) (\<lambda>r.
     Inr (np_squeeze r))))))))))"

definition numpy_IoU_minmax :: "ndarray \<Rightarrow> ndarray \<Rightarrow> error + ndarray" where
  "numpy_IoU_minmax bb1 bb2 =
     bind_err (if ndim bb1 = 1 then np_reshape bb1 (1 # shape bb1) else Inr bb1) (\<lambda>bb1.
     bind_err (if ndim bb2 = 1 then np_reshape bb2 (1 # shape bb2) else Inr bb2) (\<lambda>bb2.
     bind_err (shape0 bb1) (\<lambda>n_1.
     bind_err (shape0 bb2) (\<lambda>n_2.
     bind_err (np_reshape (np_tile bb1 [1, n_2]) [n_1 * n_2, 4]) (\<lambda>bb1_arr.
     let bb2_arr = np_tile bb2 [n_1, 1] in
     bind_err (columns bb1_arr) (\<lambda>(b1_0, b1_1, b1_2, b1_3).
     bind_err (columns bb2_arr) (\<lambda>(b2_0, b2_1, b2_2, b2_3).
     let x1 = map2 max b1_0 b2_0;
         y1 = map2 max b1_1 b2_1;
         x2 = map2 min b1_2 b2_2;
         y2 = map2 min b1_3 b2_3;
         w = map2 (\<lambda>a b. a - b) x2 x1;
         h = map2 (\<lambda>a b. a - b) y2 y1;
         inter = map2 (\<lambda>a b. a * b) w h;
         aarea = map2 (\<lambda>a b. a * b) (map2 (\<lambda>a b. a - b) b1_3 b1_1) (map2 (\<lambda>a b. a - b) b1_2 b1_0);
         barea = map2 (\<lambda>a b. a * b) (map2 (\<lambda>a b. a - b) b2_3 b2_1) (map2 (\<lambda>a b. a - b) b2_2 b2_0);
         denom = map2 (\<lambda>a b. a - b) (map2 (\<lambda>a b. a + b) aarea barea) inter;
         mask' = map (\<lambda>d. d = 0) denom;
         denom = set_where mask' (1/10) denom
     in bind_err (np_divide inter denom) (\<lambda>IoU.
     let IoU = set_where mask' 0 IoU;
         IoU = set_where (map (\<lambda>v. v \<le> 0) w) 0 IoU;
         IoU = set_where (map (\<lambda>v. v \<le> 0) h) 0 IoU
     in bind_err (np_reshape (NdArray [n_1 * n_2] IoU) [n_1, n_2]) (\<lambda>r.
     Inr (np_squeeze r))))))))))"

text \<open>
  What the lines from \<open>inter = w*h\<close> on compute for one pair of boxes, from the pair's
  \<open>w\<close>, \<open>h\<close>, \<open>aarea\<close> and \<open>barea\<close>: the three masked assignments set the entry to 0
  where \<open>denom\<close> was 0 (and replaced by 0.1 before the division), where \<open>w \<le> 0\<close> and
  where \<open>h \<le> 0\<close>.
\<close>

definition iou_entry :: "real \<Rightarrow> real \<Rightarrow> real \<Rightarrow> real \<Rightarrow> real" where
  "iou_entry w h aarea barea =
     (let inter = w * h;
          denom = aarea + barea - inter;
          IoU = inter / (if denom = 0 then 1/10 else denom);
          IoU = (if denom = 0 then 0 else IoU);
          IoU = (if w \<le> 0 then 0 else IoU)
      in if h \<le> 0 then 0 else IoU)"

text \<open>The \<open>w\<close>, \<open>h\<close> and \<open>denom\<close> of one pair in \<open>numpy_IoU_xyctrs\<close>, and its entry.\<close>

definition w_xyctrs :: "real list \<Rightarrow> real list \<Rightarrow> real" where
  "w_xyctrs b1 b2 =
     min (b1 ! 0 + 1/2 * b1 ! 2) (b2 ! 0 + 1/2 * b2 ! 2)
     - max (b1 ! 0 - 1/2 * b1 ! 2) (b2 ! 0 - 1/2 * b2 ! 2)"

definition h_xyctrs :: "real list \<Rightarrow> real list \<Rightarrow> real" where
  "h_xyctrs b1 b2 =
     min (b1 ! 1 + 1/2 * b1 ! 3) (b2 ! 1 + 1/2 * b2 ! 3)
     - max (b1 ! 1 - 1/2 * b1 ! 3) (b2 ! 1 - 1/2 * b2 ! 3)"

definition denom_xyctrs :: "real list \<Rightarrow> real list \<Rightarrow> real" where
  "denom_xyctrs b1 b2 = b1 ! 3 * b1 ! 2 + b2 ! 3 * b2 ! 2 - w_xyctrs b1 b2 * h_xyctrs b1 b2"

definition iou_xyctrs :: "real list \<Rightarrow> real list \<Rightarrow> real" where
  "iou_xyctrs b1 b2 =
     iou_entry (w_xyctrs b1 b2) (h_xyctrs b1 b2) (b1 ! 3 * b1 ! 2) (b2 ! 3 * b2 ! 2)"

text \<open>The same for \<open>numpy_IoU_minmax\<close>.\<close>

definition w_minmax :: "real list \<Rightarrow> real list \<Rightarrow> real" where
  "w_minmax b1 b2 = min (b1 ! 2) (b2 ! 2) - max (b1 ! 0) (b2 ! 0)"

definition h_minmax :: "real list \<Rightarrow> real list \<Rightarrow> real" where
  "h_minmax b1 b2 = min (b1 ! 3) (b2 ! 3) - max (b1 ! 1) (b2 ! 1)"

definition iou_minmax :: "real list \<Rightarrow> real list \<Rightarrow> real" where
  "iou_minmax b1 b2 =
     iou_entry (w_minmax b1 b2) (h_minmax b1 b2)
       ((b1 ! 3 - b1 ! 1) * (b1 ! 2 - b1 ! 0)) ((b2 ! 3 - b2 ! 1) * (b2 ! 2 - b2 ! 0))"

subsection \<open>Pairwise IoU on tensors\<close>









subsection \<open>Loops\<close>

text \<open>A \<open>for\<close> loop over a list, with the loop's variables as state; an error ends it.\<close>

fun for_loop :: "'x list \<Rightarrow> ('x \<Rightarrow> 's \<Rightarrow> error + 's) \<Rightarrow> 's \<Rightarrow> error + 's" where
  "for_loop [] body st = Inr st"
| "for_loop (x # xs) body st = bind_err (body x st) (for_loop xs body)"

subsection \<open>Anchor generation\<close>

text \<open>
  \<open>int(x)\<close> truncates towards zero. \<open>np.round\<close> rounds to the nearest integer and a half to
  the even neighbour. \<open>np.sqrt\<close> of a negative number and the division \<open>1./x\<close> by a numpy
  zero are floating-point faults (\<open>nan\<close> or \<open>inf\<close>, with a warning), errors in the model
  as for \<open>np_divide\<close>.
\<close>

definition py_int :: "real \<Rightarrow> int" where
  "py_int x = (if 0 \<le> x then \<lfloor>x\<rfloor> else \<lceil>x\<rceil>)"

definition np_round :: "real \<Rightarrow> real" where
  "np_round x =
     (let f = \<lfloor>x\<rfloor>; d = x - of_int f
      in of_int (if d < 1/2 then f else if 1/2 < d then f + 1 else if even f then f else f + 1))"

definition np_sqrt :: "real \<Rightarrow> error + real" where
  "np_sqrt x = (if x < 0 then Inl FloatingPointError else Inr (sqrt x))"

definition np_recip :: "real \<Rightarrow> error + real" where
  "np_recip x = (if x = 0 then Inl FloatingPointError else Inr (1 / x))"

definition np_zeros :: "nat list \<Rightarrow> ndarray" where
  "np_zeros sh = NdArray sh (replicate (prod_list sh) 0)"

text \<open>\<open>a[i, k:] *= s\<close> and the copy of the row \<open>a[i]\<close>, for an array of two dimensions.\<close>

definition imul_row_from :: "ndarray \<Rightarrow> nat \<Rightarrow> nat \<Rightarrow> real \<Rightarrow> error + ndarray" where
  "imul_row_from a i k s =
     (case shape a of
        [] \<Rightarrow> Inl IndexError
      | [n] \<Rightarrow> Inl IndexError
      | [n, m] \<Rightarrow>
          if i < n
          then Inr (NdArray [n, m]
                 (map (\<lambda>p. if p div m = i \<and> k \<le> p mod m then data a ! p * s else data a ! p)
                    [0..<n * m]))
          else Inl IndexError
      | _ \<Rightarrow> Inl Unmodelled)"

definition getrow :: "ndarray \<Rightarrow> nat \<Rightarrow> error + real list" where
  "getrow a i =
     (case shape a of
        [] \<Rightarrow> Inl IndexError
      | [n] \<Rightarrow> Inl Unmodelled
      | [n, m] \<Rightarrow> if i < n then Inr (take m (drop (i * m) (data a))) else Inl IndexError
      | _ \<Rightarrow> Inl Unmodelled)"

text \<open>\<open>a[i, j] = row\<close> for an array of three dimensions and a row of its last extent.\<close>

definition setrow3 :: "ndarray \<Rightarrow> nat \<Rightarrow> nat \<Rightarrow> real list \<Rightarrow> error + ndarray" where
  "setrow3 a i j row =
     (case shape a of
        [d0, d1, d2] \<Rightarrow>
          if \<not> (i < d0 \<and> j < d1) then Inl IndexError
          else if length row \<noteq> d2 then Inl Unmodelled
          else Inr (NdArray [d0, d1, d2]
                 (map (\<lambda>p. if p div d2 = i * d1 + j then row ! (p mod d2) else data a ! p)
                    [0..<d0 * d1 * d2]))
      | _ \<Rightarrow> Inl Unmodelled)"

definition generate_anchors :: "real \<Rightarrow> real list \<Rightarrow> real list \<Rightarrow> error + ndarray" where
  "generate_anchors base_size ratios scales =
     (let n_anchors = length ratios * length scales;
          base_anchor = NdArray [4]
            [of_int (py_int (base_size * (1/2))), of_int (py_int (base_size * (1/2))),
             base_size, base_size];
          scaled_anchors = np_tile base_anchor [length scales, 1];
          final_anchors = np_zeros [length scales, length ratios, 4]
      in bind_err
           (for_loop (zip scales [0..<length scales])
              (\<lambda>(s, i) (scaled_anchors, final_anchors).
                 bind_err (imul_row_from scaled_anchors i 2 s) (\<lambda>scaled_anchors.
                 bind_err
                   (for_loop (zip ratios [0..<length ratios])
                      (\<lambda>(r, j) final_anchors.
                         bind_err (getrow scaled_anchors i) (\<lambda>t.
                         bind_err (np_sqrt r) (\<lambda>sqrt_r.
                         let t = t[2 := t ! 2 * sqrt_r] in
                         bind_err (np_sqrt r) (\<lambda>sqrt_r.
                         bind_err (np_recip sqrt_r) (\<lambda>recip.
                         let t = t[3 := t ! 3 * recip]
                         in setrow3 final_anchors i j (map np_round t))))))
                      final_anchors) (\<lambda>final_anchors.
                 Inr (scaled_anchors, final_anchors))))
              (scaled_anchors, final_anchors))
           (\<lambda>(scaled_anchors, final_anchors). np_reshape final_anchors [n_anchors, 4]))"


subsection \<open>Anchor tiling\<close>

text \<open>
  \<open>len(a)\<close> is the first extent and a \<open>TypeError\<close> for an array of no dimension.
  \<open>a[i, :, :, c] += v\<close> and \<open>a[:, i, :, c] += v\<close> are for an array of four dimensions: the
  element at the flat position \<open>p\<close> has the index \<open>p div (d1 * d2 * d3)\<close> along the first
  axis, \<open>p div (d2 * d3) mod d1\<close> along the second and \<open>p mod d3\<close> along the last.
\<close>

definition py_len :: "'a array \<Rightarrow> error + nat" where
  "py_len a = (case shape a of [] \<Rightarrow> Inl TypeError | d # ds \<Rightarrow> Inr d)"

definition iadd_axis0 :: "ndarray \<Rightarrow> nat \<Rightarrow> nat \<Rightarrow> real \<Rightarrow> error + ndarray" where
  "iadd_axis0 a i c v =
     (case shape a of
        [d0, d1, d2, d3] \<Rightarrow>
          if i < d0 \<and> c < d3
          then Inr (NdArray [d0, d1, d2, d3]
                 (map (\<lambda>p. if p div (d1 * d2 * d3) = i \<and> p mod d3 = c then data a ! p + v
                           else data a ! p)
                    [0..<d0 * d1 * d2 * d3]))
          else Inl IndexError
      | _ \<Rightarrow> if ndim a < 4 then Inl IndexError else Inl Unmodelled)"

definition iadd_axis1 :: "ndarray \<Rightarrow> nat \<Rightarrow> nat \<Rightarrow> real \<Rightarrow> error + ndarray" where
  "iadd_axis1 a i c v =
     (case shape a of
        [d0, d1, d2, d3] \<Rightarrow>
          if i < d1 \<and> c < d3
          then Inr (NdArray [d0, d1, d2, d3]
                 (map (\<lambda>p. if p div (d2 * d3) mod d1 = i \<and> p mod d3 = c then data a ! p + v
                           else data a ! p)
                    [0..<d0 * d1 * d2 * d3]))
          else Inl IndexError
      | _ \<Rightarrow> if ndim a < 4 then Inl IndexError else Inl Unmodelled)"

definition pad_anchors :: "ndarray \<Rightarrow> nat \<Rightarrow> nat \<Rightarrow> real \<Rightarrow> real \<Rightarrow> error + ndarray" where
  "pad_anchors input_anchors n_tiles_x n_tiles_y step_size_x step_size_y =
     bind_err (py_len input_anchors) (\<lambda>n_input_anchors.
     let list_of_anchors = np_tile input_anchors [n_tiles_x, n_tiles_y, 1, 1] in
     bind_err (for_loop [0..<n_tiles_x]
                 (\<lambda>i a. iadd_axis0 a i 0 (step_size_x * real i)) list_of_anchors)
       (\<lambda>list_of_anchors.
     bind_err (for_loop [0..<n_tiles_y]
                 (\<lambda>i a. iadd_axis1 a i 1 (step_size_y * real i)) list_of_anchors)
       (\<lambda>list_of_anchors.
     np_reshape list_of_anchors [n_input_anchors * n_tiles_x * n_tiles_y, 4])))"

section \<open>Properties\<close>

subsection \<open>Array primitives on box sets\<close>

text \<open>
  On a box set the slices, the in-place operations and the assignments of the conversion
  functions have closed forms: columns of one length need no broadcasting.
\<close>

lemma concat_chunks: "concat (chunks d m xs) = take (d * m) xs"
proof (induction d)
  case 0
  show ?case by (simp add: chunks_def)
next
  case (Suc d)
  have "chunks (Suc d) m xs = chunks d m xs @ [take m (drop (d * m) xs)]"
    by (simp add: chunks_def)
  moreover have "take (Suc d * m) xs = take (d * m + m) xs"
    by (simp add: add.commute)
  ultimately show ?case using Suc by (simp only: concat_append take_add) simp
qed

lemma broadcast_to_same1: "length xs = n \<Longrightarrow> broadcast_to [n] [n] xs = xs"
proof -
  assume "length xs = n"
  have "map (broadcast_to [] []) (chunks n 1 xs) = chunks n 1 xs"
    by (simp add: map_idI)
  then show ?thesis using \<open>length xs = n\<close> by (simp add: concat_chunks)
qed

lemma broadcast_shape_same1: "broadcast_shape [n] [n] = Some [n]"
  by (simp add: broadcast_shape_def pad_shape_def)

lemma np_binop_same1:
  "length xs = n \<Longrightarrow> length ys = n \<Longrightarrow>
   np_binop f (NdArray [n] xs) (NdArray [n] ys) = Inr (NdArray [n] (map2 f xs ys))"
  by (simp add: np_binop_def broadcast_shape_same1 pad_shape_def broadcast_to_same1 del: broadcast_to.simps)

lemma np_inplace_same1:
  "length xs = n \<Longrightarrow> length ys = n \<Longrightarrow>
   np_inplace f (NdArray [n] xs) (NdArray [n] ys) = Inr (NdArray [n] (map2 f xs ys))"
  by (simp add: np_inplace_def broadcast_shape_same1 np_binop_same1)

lemma getcol_boxes:
  "is_boxes n a \<Longrightarrow> k < 4 \<Longrightarrow>
   getcol a k = Inr (NdArray [n] (map (\<lambda>i. data a ! (i * 4 + k)) [0..<n]))"
  by (simp add: is_boxes_def getcol_def)

lemma setcol_boxes:
  "is_boxes n a \<Longrightarrow> k < 4 \<Longrightarrow> length vals = n \<Longrightarrow>
   setcol a k (NdArray [n] vals) =
     Inr (NdArray [n, 4] (map (\<lambda>p. if p mod 4 = k then vals ! (p div 4) else data a ! p) [0..<n * 4]))"
  by (simp add: is_boxes_def setcol_def broadcast_shape_same1 pad_shape_def broadcast_to_same1 del: broadcast_to.simps)

lemma isub_col_scaled_boxes:
  assumes "is_boxes n a" "k < 4" "j < 4"
  shows "isub_col_scaled k c j a =
     Inr (NdArray [n, 4]
       (map (\<lambda>p. if p mod 4 = k then data a ! p - c * data a ! (p div 4 * 4 + j) else data a ! p)
          [0..<n * 4]))"
proof -
  have "\<And>p. p < n * 4 \<Longrightarrow> p mod 4 = k \<Longrightarrow> p div 4 * 4 + k = p"
    by auto
  moreover have "\<And>p. p < n * 4 \<Longrightarrow> p div 4 < n" by auto
  ultimately show ?thesis using assms
  by (auto simp add: isub_col_scaled_def getcol_boxes bind_err_def np_scale_def np_inplace_same1
        setcol_boxes)
qed

lemma col_index: "p < n * 4 \<Longrightarrow> p mod 4 = k \<Longrightarrow> p div 4 * 4 + k = p"
  and row_index: "p < n * 4 \<Longrightarrow> p div 4 < n"
  for p n k :: nat
  by auto

lemma iadd_col_boxes:
  assumes "is_boxes n a" "k < 4" "j < 4"
  shows "iadd_col k j a =
     Inr (NdArray [n, 4]
       (map (\<lambda>p. if p mod 4 = k then data a ! p + data a ! (p div 4 * 4 + j) else data a ! p)
          [0..<n * 4]))"
  using assms
  by (auto simp add: iadd_col_def getcol_boxes bind_err_def np_inplace_same1
        setcol_boxes col_index row_index)

lemma iadd_col_scaled_boxes:
  assumes "is_boxes n a" "k < 4" "j < 4"
  shows "iadd_col_scaled k c j a =
     Inr (NdArray [n, 4]
       (map (\<lambda>p. if p mod 4 = k then data a ! p + c * data a ! (p div 4 * 4 + j) else data a ! p)
          [0..<n * 4]))"
  using assms
  by (auto simp add: iadd_col_scaled_def getcol_boxes bind_err_def np_scale_def np_inplace_same1
        setcol_boxes col_index row_index)

lemma is_boxes_map: "is_boxes n (NdArray [n, 4] (map f [0..<n * 4]))"
  by (simp add: is_boxes_def)

lemma box_nth: "is_boxes n a \<Longrightarrow> i < n \<Longrightarrow> k < 4 \<Longrightarrow> box a i ! k = data a ! (i * 4 + k)"
  by (simp add: box_def is_boxes_def)

lemma box_length: "is_boxes n a \<Longrightarrow> i < n \<Longrightarrow> length (box a i) = 4"
  by (simp add: box_def is_boxes_def)

lemma set_col_rows_minus_col_raises:
  assumes "is_boxes n a" "j < 4" "k < 4" "2 \<le> r"
  shows "set_col_rows_minus_col k r j a = Inl ValueError"
proof -
  consider "n = 1" | "n = 4" | "n \<noteq> 1 \<and> n \<noteq> 4" by blast
  then show ?thesis
  proof cases
    case 1
    with assms show ?thesis
      by (simp add: set_col_rows_minus_col_def is_boxes_def getrows_def getcol_def bind_err_def
            np_binop_def broadcast_shape_def pad_shape_def setcol_def)
  next
    case 2
    with assms have "min n r \<noteq> 1" by simp
    with 2 assms show ?thesis
      by (simp add: set_col_rows_minus_col_def is_boxes_def getrows_def getcol_def bind_err_def
            np_binop_def broadcast_shape_def pad_shape_def setcol_def)
  next
    case 3
    with assms show ?thesis
      by (simp add: set_col_rows_minus_col_def is_boxes_def getrows_def getcol_def bind_err_def
            np_binop_def broadcast_shape_def pad_shape_def)
  qed
qed

lemma run_on_copy_frame:
  assumes "p < length h"
  shows "length (snd (run_on h p False body)) = Suc (length h)"
    and "take (length h) (snd (run_on h p False body)) = h"
  using assms
  by (auto simp add: run_on_def np_copy_def Let_def split: prod.splits option.splits)

lemma run_on_raises:
  assumes "p < length h" "s (h ! p) = Inl e"
  shows "fst (run_on h p in_place (s # ss)) = Inl e"
  using assms
  by (simp add: run_on_def np_copy_def nth_append split: prod.splits option.splits)

lemma run_on_copy_result:
  assumes "p < length h" "run_stmts body (h ! p) = (None, a')"
  shows "run_on h p False body = (Inr (length h), h @ [a'])"
  using assms
  by (simp add: run_on_def np_copy_def nth_append)

lemma box_nth_colmap:
  assumes "i < n" "l < 4"
  shows "box (NdArray [n, 4] (map (\<lambda>p. if p mod 4 = k then g p else data a ! p) [0..<n * 4])) i ! l
         = (if l = k then g (i * 4 + l) else data a ! (i * 4 + l))"
proof -
  have "i * 4 + l < n * 4" using assms by simp
  moreover have "(i * 4 + l) mod 4 = l" using assms by simp
  ultimately show ?thesis
    using assms by (simp add: box_nth [OF is_boxes_map])
qed

lemma isub_col_scaled_box:
  assumes "is_boxes n a" "k < 4" "j < 4"
  shows "\<exists>a'. isub_col_scaled k c j a = Inr a' \<and> is_boxes n a'
     \<and> (\<forall>i<n. \<forall>l<4. box a' i ! l = (if l = k then box a i ! k - c * box a i ! j else box a i ! l))"
proof -
  have "(i * 4 + l) div 4 = i" if "l < 4" for i l :: nat using that by simp
  then show ?thesis
    using assms
    by (simp add: isub_col_scaled_boxes is_boxes_map box_nth_colmap box_nth)
qed

lemma iadd_col_scaled_box:
  assumes "is_boxes n a" "k < 4" "j < 4"
  shows "\<exists>a'. iadd_col_scaled k c j a = Inr a' \<and> is_boxes n a'
     \<and> (\<forall>i<n. \<forall>l<4. box a' i ! l = (if l = k then box a i ! k + c * box a i ! j else box a i ! l))"
proof -
  have "(i * 4 + l) div 4 = i" if "l < 4" for i l :: nat using that by simp
  then show ?thesis
    using assms
    by (simp add: iadd_col_scaled_boxes is_boxes_map box_nth_colmap box_nth)
qed

lemma iadd_col_box:
  assumes "is_boxes n a" "k < 4" "j < 4"
  shows "\<exists>a'. iadd_col k j a = Inr a' \<and> is_boxes n a'
     \<and> (\<forall>i<n. \<forall>l<4. box a' i ! l = (if l = k then box a i ! k + box a i ! j else box a i ! l))"
proof -
  have "(i * 4 + l) div 4 = i" if "l < 4" for i l :: nat using that by simp
  then show ?thesis
    using assms
    by (simp add: iadd_col_boxes is_boxes_map box_nth_colmap box_nth)
qed

lemma whctrs_to_minmax_body:
  assumes "is_boxes n a"
  shows "\<exists>a'. run_stmts [isub_col_scaled 0 (1/2) 2, isub_col_scaled 1 (1/2) 3, iadd_col 2 0, iadd_col 3 1] a = (None, a')
     \<and> is_boxes n a'
     \<and> (\<forall>i<n. box a' i ! 0 = box a i ! 0 - 1/2 * box a i ! 2
              \<and> box a' i ! 1 = box a i ! 1 - 1/2 * box a i ! 3
              \<and> box a' i ! 2 = box a i ! 2 + box a' i ! 0
              \<and> box a' i ! 3 = box a i ! 3 + box a' i ! 1)"
proof -
  obtain a1 where s1: "isub_col_scaled 0 (1/2) 2 a = Inr a1" and b1: "is_boxes n a1"
    and v1: "\<And>i l. i < n \<Longrightarrow> l < 4 \<Longrightarrow> box a1 i ! l = (if l = 0 then box a i ! 0 - 1/2 * box a i ! 2 else box a i ! l)"
    using isub_col_scaled_box [OF assms, of 0 2 "1/2"] by auto
  obtain a2 where s2: "isub_col_scaled 1 (1/2) 3 a1 = Inr a2" and b2: "is_boxes n a2"
    and v2: "\<And>i l. i < n \<Longrightarrow> l < 4 \<Longrightarrow> box a2 i ! l = (if l = 1 then box a1 i ! 1 - 1/2 * box a1 i ! 3 else box a1 i ! l)"
    using isub_col_scaled_box [OF b1, of 1 3 "1/2"] by auto
  obtain a3 where s3: "iadd_col 2 0 a2 = Inr a3" and b3: "is_boxes n a3"
    and v3: "\<And>i l. i < n \<Longrightarrow> l < 4 \<Longrightarrow> box a3 i ! l = (if l = 2 then box a2 i ! 2 + box a2 i ! 0 else box a2 i ! l)"
    using iadd_col_box [OF b2, of 2 0] by auto
  obtain a4 where s4: "iadd_col 3 1 a3 = Inr a4" and b4: "is_boxes n a4"
    and v4: "\<And>i l. i < n \<Longrightarrow> l < 4 \<Longrightarrow> box a4 i ! l = (if l = 3 then box a3 i ! 3 + box a3 i ! 1 else box a3 i ! l)"
    using iadd_col_box [OF b3, of 3 1] by auto
  have run: "run_stmts [isub_col_scaled 0 (1/2) 2, isub_col_scaled 1 (1/2) 3, iadd_col 2 0, iadd_col 3 1] a = (None, a4)"
    by (simp only: run_stmts.simps s1 s2 s3 s4 sum.case)
  have "box a4 i ! 0 = box a i ! 0 - 1/2 * box a i ! 2
              \<and> box a4 i ! 1 = box a i ! 1 - 1/2 * box a i ! 3
              \<and> box a4 i ! 2 = box a i ! 2 + box a4 i ! 0
              \<and> box a4 i ! 3 = box a i ! 3 + box a4 i ! 1" if "i < n" for i
    using that by (simp add: v1 v2 v3 v4)
  with run b4 show ?thesis by blast
qed

subsection \<open>Tiling\<close>

text \<open>
  The two tilings of the IoU functions: after \<open>np.tile(bb1, [1, n_2])\<close> and the reshape,
  row \<open>p\<close> is box \<open>p div n_2\<close> of \<open>bb1\<close>; after \<open>np.tile(bb2, [n_1, 1])\<close> row \<open>p\<close> is
  box \<open>p mod n_2\<close> of \<open>bb2\<close>.
\<close>

lemma nth_concat_uniform:
  "\<forall>ys\<in>set yss. length ys = m \<Longrightarrow> q < length yss * m \<Longrightarrow>
   concat yss ! q = yss ! (q div m) ! (q mod m)"
proof (induction yss arbitrary: q)
  case Nil
  then show ?case by simp
next
  case (Cons y yss)
  show ?case
  proof (cases "q < m")
    case True
    with Cons.prems show ?thesis by (simp add: nth_append)
  next
    case False
    then have ge: "m \<le> q" by simp
    from Cons.prems have m: "0 < m" by (cases m) auto
    from Cons.prems ge have lt: "q - m < length yss * m" by auto
    have "concat (y # yss) ! q = concat yss ! (q - m)"
      using Cons.prems False by (simp add: nth_append)
    also have "\<dots> = yss ! ((q - m) div m) ! ((q - m) mod m)"
      using Cons.prems lt by (intro Cons.IH) auto
    also have "\<dots> = (y # yss) ! (q div m) ! (q mod m)"
      using ge m by (simp add: le_div_geq le_mod_geq)
    finally show ?thesis .
  qed
qed

lemma map_upt_cong: "(\<And>i. i < n \<Longrightarrow> f i = g i) \<Longrightarrow> map f [0..<n] = map g [0..<n]"
  by simp

lemma chunks_length: "length (chunks d m xs) = d"
  by (simp add: chunks_def)

lemma chunks_nth: "i < d \<Longrightarrow> chunks d m xs ! i = take m (drop (i * m) xs)"
  by (simp add: chunks_def)

lemma tile_data_unit: "tile_data [m] [1] c = take m c"
proof -
  have "map (tile_data [] []) (chunks m 1 c) = chunks m 1 c"
    by (simp add: map_idI)
  then show ?thesis by (simp add: concat_chunks)
qed

lemma tile_data_rep: "tile_data [m] [r] c = concat (replicate r (take m c))"
proof -
  have "map (tile_data [] []) (chunks m 1 c) = chunks m 1 c"
    by (simp add: map_idI)
  then show ?thesis by (simp add: concat_chunks)
qed

lemma tile_rows_data:
  assumes "length xs = n * 4"
  shows "tile_data [n, 4] [r, 1] xs = concat (replicate r xs)"
proof -
  have "map (tile_data [4] [1]) (chunks n 4 xs) = chunks n 4 xs"
    unfolding chunks_def by (simp only: list.map_comp comp_def tile_data_unit) simp
  moreover have "tile_data [n, 4] [r, 1] xs
      = concat (replicate r (concat (map (tile_data [4] [1]) (chunks n 4 xs))))"
    by (simp only: tile_data.simps prod_list.Cons prod_list.Nil mult_1_right)
  ultimately show ?thesis using assms by (simp only: concat_chunks) simp
qed

lemma tile_cols_data:
  "tile_data [n, 4] [1, r] xs = concat (map (\<lambda>c. concat (replicate r c)) (chunks n 4 xs))"
proof -
  have "map (tile_data [4] [r]) (chunks n 4 xs) = map (\<lambda>c. concat (replicate r c)) (chunks n 4 xs)"
    unfolding chunks_def by (simp only: list.map_comp comp_def tile_data_rep) simp
  moreover have "tile_data [n, 4] [1, r] xs
      = concat (replicate 1 (concat (map (tile_data [4] [r]) (chunks n 4 xs))))"
    by (simp only: tile_data.simps prod_list.Cons prod_list.Nil mult_1_right)
  ultimately show ?thesis by (simp only: replicate_Suc replicate_0 One_nat_def concat.simps append_Nil2)
qed

lemma tile_rows_nth:
  assumes "length xs = n * 4" "q < r * (n * 4)"
  shows "tile_data [n, 4] [r, 1] xs ! q = xs ! (q div 4 mod n * 4 + q mod 4)"
proof -
  have "concat (replicate r xs) ! q = replicate r xs ! (q div (n * 4)) ! (q mod (n * 4))"
    using assms by (intro nth_concat_uniform) auto
  moreover have "q div (n * 4) < r"
    using assms by (simp add: less_mult_imp_div_less)
  moreover have "q mod (n * 4) = q div 4 mod n * 4 + q mod 4"
    using mod_mult2_eq [of q 4 n] by (simp add: mult.commute)
  ultimately show ?thesis using assms by (simp only: tile_rows_data) simp
qed

lemma tile_cols_nth:
  assumes "length xs = n * 4" "q < n * (r * 4)"
  shows "tile_data [n, 4] [1, r] xs ! q = xs ! (q div 4 div r * 4 + q mod 4)"
proof -
  let ?yss = "map (\<lambda>c. concat (replicate r c)) (chunks n 4 xs)"
  have len: "\<forall>ys\<in>set ?yss. length ys = r * 4"
    using assms by (auto simp add: chunks_def length_concat sum_list_replicate)
  have i: "q div (r * 4) < n"
    using assms by (simp add: less_mult_imp_div_less)
  have "q div (r * 4) = q div (4 * r)"
    by (simp add: mult.commute)
  then have dv: "q div (r * 4) = q div 4 div r"
    by (simp only: div_mult2_eq)
  have md: "q mod (r * 4) mod 4 = q mod 4"
    by (simp add: mod_mult_self2_is_0 mod_mod_cancel)
  have lt: "q mod (r * 4) < r * 4"
    using assms by (cases r) auto
  have "concat ?yss ! q = ?yss ! (q div (r * 4)) ! (q mod (r * 4))"
    using len assms by (intro nth_concat_uniform) (simp_all add: chunks_length)
  also have "\<dots> = concat (replicate r (take 4 (drop (q div (r * 4) * 4) xs))) ! (q mod (r * 4))"
    using i by (simp add: chunks_nth chunks_length)
  also have "\<dots> = replicate r (take 4 (drop (q div (r * 4) * 4) xs)) ! (q mod (r * 4) div 4) ! (q mod (r * 4) mod 4)"
    using assms i lt by (intro nth_concat_uniform) auto
  also have "\<dots> = take 4 (drop (q div (r * 4) * 4) xs) ! (q mod 4)"
    using lt by (simp add: md less_mult_imp_div_less)
  also have "\<dots> = xs ! (q div 4 div r * 4 + q mod 4)"
    using assms i by (simp add: dv)
  finally show ?thesis by (simp only: tile_cols_data)
qed

lemma length_concat_uniform:
  "\<forall>ys\<in>set yss. length ys = m \<Longrightarrow> length (concat yss) = length yss * m"
  by (induction yss) auto

lemma length_tile_rows: "length xs = n * 4 \<Longrightarrow> length (tile_data [n, 4] [r, 1] xs) = r * n * 4"
  by (simp only: tile_rows_data) (simp add: length_concat sum_list_replicate)

lemma length_tile_cols: 
  assumes "length xs = n * 4" 
  shows "length (tile_data [n, 4] [1, r] xs) = n * r * 4"
proof -
  have "length (concat (map (\<lambda>c. concat (replicate r c)) (chunks n 4 xs))) = length (map (\<lambda>c. concat (replicate r c)) (chunks n 4 xs)) * (r * 4)"
    using assms by (intro length_concat_uniform) (auto simp add: chunks_def length_concat sum_list_replicate)
  then show ?thesis by (simp only: tile_cols_data) (simp add: chunks_length)
qed

lemma box_input_reshape:
  assumes "is_box_input n a"
  shows "(if ndim a = 1 then np_reshape a (1 # shape a) else Inr a) = Inr (NdArray [n, 4] (data a))"
    and "length (data a) = n * 4"
  using assms
  by (auto simp add: is_box_input_def is_boxes_def ndim_def np_reshape_def intro: array.expand)

lemma box_input_nth: "is_box_input n a \<Longrightarrow> i < n \<Longrightarrow> k < 4 \<Longrightarrow> box a i ! k = data a ! (i * 4 + k)"
  by (auto simp add: box_def is_box_input_def is_boxes_def)

lemma columns_boxes:
  "columns (NdArray [n, 4] ds) =
     Inr (map (\<lambda>p. ds ! (p * 4)) [0..<n], map (\<lambda>p. ds ! (p * 4 + 1)) [0..<n],
          map (\<lambda>p. ds ! (p * 4 + 2)) [0..<n], map (\<lambda>p. ds ! (p * 4 + 3)) [0..<n])"
  by (simp add: columns_def getcol_def bind_err_def)

lemma columns_tile_cols:
  assumes "length xs = n1 * 4"
  shows "columns (NdArray [n1 * n2, 4] (tile_data [n1, 4] [1, n2] xs)) =
     Inr (map (\<lambda>p. xs ! (p div n2 * 4)) [0..<n1 * n2], map (\<lambda>p. xs ! (p div n2 * 4 + 1)) [0..<n1 * n2],
          map (\<lambda>p. xs ! (p div n2 * 4 + 2)) [0..<n1 * n2], map (\<lambda>p. xs ! (p div n2 * 4 + 3)) [0..<n1 * n2])"
proof -
  have "tile_data [n1, 4] [1, n2] xs ! (p * 4 + k) = xs ! (p div n2 * 4 + k)"
    if "p < n1 * n2" "k < 4" for p k
  proof -
    have "p * 4 + k < n1 * (n2 * 4)" using that by simp
    from tile_cols_nth [OF assms this] that show ?thesis by simp
  qed
  from this [of _ 0] this [of _ 1] this [of _ 2] this [of _ 3] show ?thesis
    by (simp add: columns_boxes)
qed

lemma columns_tile_rows:
  assumes "length ys = n2 * 4"
  shows "columns (NdArray [n1 * n2, 4] (tile_data [n2, 4] [n1, 1] ys)) =
     Inr (map (\<lambda>p. ys ! (p mod n2 * 4)) [0..<n1 * n2], map (\<lambda>p. ys ! (p mod n2 * 4 + 1)) [0..<n1 * n2],
          map (\<lambda>p. ys ! (p mod n2 * 4 + 2)) [0..<n1 * n2], map (\<lambda>p. ys ! (p mod n2 * 4 + 3)) [0..<n1 * n2])"
proof -
  have "tile_data [n2, 4] [n1, 1] ys ! (p * 4 + k) = ys ! (p mod n2 * 4 + k)"
    if "p < n1 * n2" "k < 4" for p k
  proof -
    have "p * 4 + k < n1 * (n2 * 4)" using that by simp
    from tile_rows_nth [OF assms this] that show ?thesis by simp
  qed
  from this [of _ 0] this [of _ 1] this [of _ 2] this [of _ 3] show ?thesis
    by (simp add: columns_boxes)
qed

subsection \<open>The IoU functions, entry by entry\<close>

text \<open>
  The vectorised functions compute, at the flat position \<open>i * n2 + j\<close>, the entry of the
  pair of box \<open>i\<close> of the first input and box \<open>j\<close> of the second.
\<close>

lemma np_tile_cols: "np_tile (NdArray [n1, 4] xs) [1, n2] = NdArray [n1, 4 * n2] (tile_data [n1, 4] [1, n2] xs)"
  by (simp add: np_tile_def ndim_def pad_shape_def del: tile_data.simps)

lemma np_tile_rows: "np_tile (NdArray [n2, 4] ys) [n1, 1] = NdArray [n2 * n1, 4] (tile_data [n2, 4] [n1, 1] ys)"
  by (simp add: np_tile_def ndim_def pad_shape_def del: tile_data.simps)

lemma iou_tail:
  "bind_err (np_divide (map (\<lambda>p. fw p * fh p) [0..<n1 * n2])
       (set_where (map (\<lambda>d. d = 0) (map (\<lambda>p. fa p + fb p - fw p * fh p) [0..<n1 * n2])) (1/10)
          (map (\<lambda>p. fa p + fb p - fw p * fh p) [0..<n1 * n2])))
     (\<lambda>IoU.
        let IoU = set_where (map (\<lambda>d. d = 0) (map (\<lambda>p. fa p + fb p - fw p * fh p) [0..<n1 * n2])) 0 IoU;
            IoU = set_where (map (\<lambda>v. v \<le> 0) (map fw [0..<n1 * n2])) 0 IoU;
            IoU = set_where (map (\<lambda>v. v \<le> 0) (map fh [0..<n1 * n2])) 0 IoU
        in bind_err (np_reshape (NdArray [n1 * n2] IoU) [n1, n2]) (\<lambda>r. Inr (np_squeeze r)))
   = Inr (NdArray (filter (\<lambda>d. d \<noteq> 1) [n1, n2])
        (map (\<lambda>p. iou_entry (fw p) (fh p) (fa p) (fb p)) [0..<n1 * n2]))"
proof -
  let ?N = "n1 * n2"
  let ?den = "\<lambda>p. fa p + fb p - fw p * fh p"
  have den: "set_where (map (\<lambda>d. d = 0) (map ?den [0..<?N])) (1/10) (map ?den [0..<?N])
     = map (\<lambda>p. if ?den p = 0 then 1/10 else ?den p) [0..<?N]"
    by (simp add: set_where_def map2_map_map)
  have nz: "0 \<notin> set (map (\<lambda>p. if ?den p = 0 then 1/10 else ?den p) [0..<?N])"
    by auto
  have dv: "np_divide (map (\<lambda>p. fw p * fh p) [0..<?N]) (map (\<lambda>p. if ?den p = 0 then 1/10 else ?den p) [0..<?N])
     = Inr (map (\<lambda>p. fw p * fh p / (if ?den p = 0 then 1/10 else ?den p)) [0..<?N])"
    using nz by (simp only: np_divide_def if_False map2_map_map)
  show ?thesis
    unfolding den dv
    by (simp add: bind_err_def Let_def set_where_def map2_map_map np_reshape_def np_squeeze_def iou_entry_def)
qed

lemma numpy_IoU_xyctrs_eq:
  assumes A: "is_box_input n1 A" and B: "is_box_input n2 B"
  shows "numpy_IoU_xyctrs A B =
     Inr (NdArray (filter (\<lambda>d. d \<noteq> 1) [n1, n2])
       (map (\<lambda>p. iou_xyctrs (box A (p div n2)) (box B (p mod n2))) [0..<n1 * n2]))"
proof -
  let ?xs = "data A" and ?ys = "data B"
  note ra = box_input_reshape [OF A] and rb = box_input_reshape [OF B]
  have rs: "np_reshape (np_tile (NdArray [n1, 4] ?xs) [1, n2]) [n1 * n2, 4]
      = Inr (NdArray [n1 * n2, 4] (tile_data [n1, 4] [1, n2] ?xs))"
    unfolding np_tile_cols np_reshape_def array.sel
    using length_tile_cols [OF ra(2), of n2] by (simp del: tile_data.simps)
  have t2: "np_tile (NdArray [n2, 4] ?ys) [n1, 1] = NdArray [n1 * n2, 4] (tile_data [n2, 4] [n1, 1] ?ys)"
    unfolding np_tile_rows by (simp add: mult.commute del: tile_data.simps)
  have "numpy_IoU_xyctrs A B =
     Inr (NdArray (filter (\<lambda>d. d \<noteq> 1) [n1, n2])
       (map (\<lambda>p. iou_entry
           (min (?xs ! (p div n2 * 4) + 1/2 * ?xs ! (p div n2 * 4 + 2)) (?ys ! (p mod n2 * 4) + 1/2 * ?ys ! (p mod n2 * 4 + 2))
            - max (?xs ! (p div n2 * 4) - 1/2 * ?xs ! (p div n2 * 4 + 2)) (?ys ! (p mod n2 * 4) - 1/2 * ?ys ! (p mod n2 * 4 + 2)))
           (min (?xs ! (p div n2 * 4 + 1) + 1/2 * ?xs ! (p div n2 * 4 + 3)) (?ys ! (p mod n2 * 4 + 1) + 1/2 * ?ys ! (p mod n2 * 4 + 3))
            - max (?xs ! (p div n2 * 4 + 1) - 1/2 * ?xs ! (p div n2 * 4 + 3)) (?ys ! (p mod n2 * 4 + 1) - 1/2 * ?ys ! (p mod n2 * 4 + 3)))
           (?xs ! (p div n2 * 4 + 3) * ?xs ! (p div n2 * 4 + 2))
           (?ys ! (p mod n2 * 4 + 3) * ?ys ! (p mod n2 * 4 + 2))) [0..<n1 * n2]))"
    unfolding numpy_IoU_xyctrs_def ra(1) rb(1)
    apply (simp only: bind_err_def sum.case shape0_def array.sel list.case rs t2 Let_def
        columns_tile_cols [OF ra(2)] columns_tile_rows [OF rb(2)] prod.case map2_map_map)
    apply (rule iou_tail [unfolded bind_err_def Let_def])
    done
  also have "\<dots> = Inr (NdArray (filter (\<lambda>d. d \<noteq> 1) [n1, n2])
       (map (\<lambda>p. iou_xyctrs (box A (p div n2)) (box B (p mod n2))) [0..<n1 * n2]))"
  proof -
    have "p div n2 < n1" "p mod n2 < n2" if "p < n1 * n2" for p
      using that by (simp_all add: less_mult_imp_div_less) (cases n2, auto)
    then show ?thesis
      by (simp add: iou_xyctrs_def w_xyctrs_def h_xyctrs_def box_input_nth [OF A] box_input_nth [OF B]
          box_input_nth [OF A, of _ 0, simplified] box_input_nth [OF B, of _ 0, simplified])
  qed
  finally show ?thesis .
qed

lemma numpy_IoU_minmax_eq:
  assumes A: "is_box_input n1 A" and B: "is_box_input n2 B"
  shows "numpy_IoU_minmax A B =
     Inr (NdArray (filter (\<lambda>d. d \<noteq> 1) [n1, n2])
       (map (\<lambda>p. iou_minmax (box A (p div n2)) (box B (p mod n2))) [0..<n1 * n2]))"
proof -
  let ?xs = "data A" and ?ys = "data B"
  note ra = box_input_reshape [OF A] and rb = box_input_reshape [OF B]
  have rs: "np_reshape (np_tile (NdArray [n1, 4] ?xs) [1, n2]) [n1 * n2, 4]
      = Inr (NdArray [n1 * n2, 4] (tile_data [n1, 4] [1, n2] ?xs))"
    unfolding np_tile_cols np_reshape_def array.sel
    using length_tile_cols [OF ra(2), of n2] by (simp del: tile_data.simps)
  have t2: "np_tile (NdArray [n2, 4] ?ys) [n1, 1] = NdArray [n1 * n2, 4] (tile_data [n2, 4] [n1, 1] ?ys)"
    unfolding np_tile_rows by (simp add: mult.commute del: tile_data.simps)
  have "numpy_IoU_minmax A B =
     Inr (NdArray (filter (\<lambda>d. d \<noteq> 1) [n1, n2])
       (map (\<lambda>p. iou_entry
           (min (?xs ! (p div n2 * 4 + 2)) (?ys ! (p mod n2 * 4 + 2))
            - max (?xs ! (p div n2 * 4)) (?ys ! (p mod n2 * 4)))
           (min (?xs ! (p div n2 * 4 + 3)) (?ys ! (p mod n2 * 4 + 3))
            - max (?xs ! (p div n2 * 4 + 1)) (?ys ! (p mod n2 * 4 + 1)))
           ((?xs ! (p div n2 * 4 + 3) - ?xs ! (p div n2 * 4 + 1)) * (?xs ! (p div n2 * 4 + 2) - ?xs ! (p div n2 * 4)))
           ((?ys ! (p mod n2 * 4 + 3) - ?ys ! (p mod n2 * 4 + 1)) * (?ys ! (p mod n2 * 4 + 2) - ?ys ! (p mod n2 * 4))))
         [0..<n1 * n2]))"
    unfolding numpy_IoU_minmax_def ra(1) rb(1)
    apply (simp only: bind_err_def sum.case shape0_def array.sel list.case rs t2 Let_def
        columns_tile_cols [OF ra(2)] columns_tile_rows [OF rb(2)] prod.case map2_map_map)
    apply (rule iou_tail [unfolded bind_err_def Let_def])
    done
  also have "\<dots> = Inr (NdArray (filter (\<lambda>d. d \<noteq> 1) [n1, n2])
       (map (\<lambda>p. iou_minmax (box A (p div n2)) (box B (p mod n2))) [0..<n1 * n2]))"
  proof -
    have "p div n2 < n1" "p mod n2 < n2" if "p < n1 * n2" for p
      using that by (simp_all add: less_mult_imp_div_less) (cases n2, auto)
    then show ?thesis
      by (simp add: iou_minmax_def w_minmax_def h_minmax_def box_input_nth [OF A] box_input_nth [OF B]
          box_input_nth [OF A, of _ 0, simplified] box_input_nth [OF B, of _ 0, simplified])
  qed
  finally show ?thesis .
qed

lemma pair_index: "i < n1 \<Longrightarrow> j < n2 \<Longrightarrow> i * n2 + j < n1 * n2"
  and pair_div: "j < n2 \<Longrightarrow> (i * n2 + j) div n2 = i"
  and pair_mod: "j < n2 \<Longrightarrow> (i * n2 + j) mod n2 = j"
  for i j n1 n2 :: nat
proof -
  show "i * n2 + j < n1 * n2" if "i < n1" "j < n2"
  proof -
    have "i * n2 + j < i * n2 + n2" using that by simp
    also have "\<dots> = Suc i * n2" by simp
    also have "\<dots> \<le> n1 * n2" using that by (intro mult_le_mono1) simp
    finally show ?thesis .
  qed
qed simp_all

lemma iou_entry_zero:
  "w \<le> 0 \<or> h \<le> 0 \<or> aarea + barea - w * h = 0 \<Longrightarrow> iou_entry w h aarea barea = 0"
  by (auto simp add: iou_entry_def Let_def)




lemma iou_xyctrs_commute: "iou_xyctrs b1 b2 = iou_xyctrs b2 b1"
  by (simp add: iou_xyctrs_def iou_entry_def w_xyctrs_def h_xyctrs_def min.commute max.commute add.commute)

subsection \<open>Coordinate conversion\<close>

lemma anchors_minmax_to_whctrs_fails:
  assumes "p < length h" "is_boxes n (h ! p)"
  shows "fst (anchors_minmax_to_whctrs h p in_place) = Inl ValueError"
proof -
  have "set_col_rows_minus_col 2 2 0 (h ! p) = Inl ValueError"
    using assms(2) by (rule set_col_rows_minus_col_raises) simp_all
  with assms(1) show ?thesis
    unfolding anchors_minmax_to_whctrs_def by (rule run_on_raises)
qed

lemma anchors_whctrs_to_minmax_copy:
  assumes "p < length h" "is_boxes n (h ! p)"
  shows "\<exists>a'. anchors_whctrs_to_minmax h p False = (Inr (length h), h @ [a'])
     \<and> is_boxes n a'
     \<and> (\<forall>i<n. box a' i ! 0 = box (h ! p) i ! 0 - 1/2 * box (h ! p) i ! 2
              \<and> box a' i ! 1 = box (h ! p) i ! 1 - 1/2 * box (h ! p) i ! 3
              \<and> box a' i ! 2 = box (h ! p) i ! 2 + box a' i ! 0
              \<and> box a' i ! 3 = box (h ! p) i ! 3 + box a' i ! 1)"
proof -
  from whctrs_to_minmax_body [OF assms(2)] obtain a' where
    run: "run_stmts [isub_col_scaled 0 (1/2) 2, isub_col_scaled 1 (1/2) 3, iadd_col 2 0, iadd_col 3 1] (h ! p) = (None, a')"
    and rest: "is_boxes n a'" "\<forall>i<n. box a' i ! 0 = box (h ! p) i ! 0 - 1/2 * box (h ! p) i ! 2
              \<and> box a' i ! 1 = box (h ! p) i ! 1 - 1/2 * box (h ! p) i ! 3
              \<and> box a' i ! 2 = box (h ! p) i ! 2 + box a' i ! 0
              \<and> box a' i ! 3 = box (h ! p) i ! 3 + box a' i ! 1"
    by blast
  have "anchors_whctrs_to_minmax h p False = (Inr (length h), h @ [a'])"
    unfolding anchors_whctrs_to_minmax_def using assms(1) run by (rule run_on_copy_result)
  with rest show ?thesis by blast
qed

text \<open>
  Claim C1 (round trip). The claim: for every center-form box set \<open>B\<close>, converting with
  \<open>anchors_whctrs_to_minmax\<close> and back with \<open>anchors_minmax_to_whctrs\<close>, both with
  \<open>in_place = False\<close>, returns a box set equal to \<open>B\<close>. What the code does: the first
  conversion returns a new array, and the conversion back raises \<open>ValueError\<close> at its
  first statement, for every box set: it reads \<open>anchors[:2]\<close>, the first two rows, where the
  column \<open>anchors[:, 2]\<close> is meant, and the value does not fit the column it is assigned to.
\<close>

theorem roundtrip_raises:
  assumes "p < length h" "is_boxes n (h ! p)"
  shows "\<exists>a'. anchors_whctrs_to_minmax h p False = (Inr (length h), h @ [a'])
     \<and> fst (anchors_minmax_to_whctrs (h @ [a']) (length h) False) = Inl ValueError"
proof -
  from anchors_whctrs_to_minmax_copy [OF assms] obtain a' where
    a': "anchors_whctrs_to_minmax h p False = (Inr (length h), h @ [a'])" "is_boxes n a'"
    by blast
  have "fst (anchors_minmax_to_whctrs (h @ [a']) (length h) False) = Inl ValueError"
    using a'(2) by (intro anchors_minmax_to_whctrs_fails [of _ _ n]) simp_all
  with a'(1) show ?thesis by blast
qed

theorem roundtrip_raises_witness:
  "0 < length [boxes_of [[5, 5, 10, 10]]] \<and> is_boxes 1 ([boxes_of [[5, 5, 10, 10]]] ! 0)
   \<and> (\<exists>a'. anchors_whctrs_to_minmax [boxes_of [[5, 5, 10, 10]]] 0 False
            = (Inr 1, [boxes_of [[5, 5, 10, 10]], a'])
        \<and> fst (anchors_minmax_to_whctrs [boxes_of [[5, 5, 10, 10]], a'] 1 False) = Inl ValueError)"
proof -
  have h1: "0 < length [boxes_of [[5, 5, 10, 10]]]" by simp
  have h2: "is_boxes 1 ([boxes_of [[5, 5, 10, 10]]] ! 0)" by (simp add: is_boxes_def boxes_of_def)
  from roundtrip_raises [OF h1 h2] h1 h2 show ?thesis by simp
qed

lemma roundtrip_example:
  "anchors_whctrs_to_minmax [boxes_of [[5, 5, 10, 10]]] 0 False
     = (Inr 1, [boxes_of [[5, 5, 10, 10]], boxes_of [[0, 0, 10, 10]]])"
  "anchors_minmax_to_whctrs [boxes_of [[5, 5, 10, 10]], boxes_of [[0, 0, 10, 10]]] 1 False
     = (Inl ValueError, [boxes_of [[5, 5, 10, 10]], boxes_of [[0, 0, 10, 10]], boxes_of [[0, 0, 10, 10]]])"
  by code_simp+

text \<open>
  Claim C2 (conversion to center form). The claim: \<open>anchors_minmax_to_whctrs\<close> returns the
  set whose boxes have width \<open>x_max - x_min\<close>, height \<open>y_max - y_min\<close> and centers
  \<open>x_min + width/2\<close>, \<open>y_min + height/2\<close>. What the code does: for every box set and
  either value of \<open>in_place\<close> the call raises \<open>ValueError\<close> and returns nothing.
\<close>

theorem anchors_minmax_to_whctrs_raises:
  assumes "p < length h" "is_boxes n (h ! p)"
  shows "fst (anchors_minmax_to_whctrs h p in_place) = Inl ValueError"
  using assms by (rule anchors_minmax_to_whctrs_fails)

theorem anchors_minmax_to_whctrs_raises_witness:
  "0 < length [boxes_of [[0, 0, 10, 10], [2, 1, 4, 7]]]
   \<and> is_boxes 2 ([boxes_of [[0, 0, 10, 10], [2, 1, 4, 7]]] ! 0)
   \<and> fst (anchors_minmax_to_whctrs [boxes_of [[0, 0, 10, 10], [2, 1, 4, 7]]] 0 False) = Inl ValueError"
proof -
  have h1: "0 < length [boxes_of [[0, 0, 10, 10], [2, 1, 4, 7]]]" by simp
  have h2: "is_boxes 2 ([boxes_of [[0, 0, 10, 10], [2, 1, 4, 7]]] ! 0)"
    by (simp add: is_boxes_def boxes_of_def)
  from anchors_minmax_to_whctrs_raises [OF h1 h2] h1 h2 show ?thesis by blast
qed

text \<open>
  Claim C10 (copy semantics). With \<open>in_place = False\<close>, \<open>anchors_whctrs_to_minmax\<close> returns
  a reference to a new array and leaves every array of the store as it was, the input among
  them. \<open>anchors_minmax_to_whctrs\<close> leaves every array of the store as it was too, but
  raises \<open>ValueError\<close> where the claim has it return the converted copy.
\<close>

theorem conversion_copy_frame:
  assumes "p < length h" "is_boxes n (h ! p)"
  shows "fst (anchors_whctrs_to_minmax h p False) = Inr (length h)
     \<and> take (length h) (snd (anchors_whctrs_to_minmax h p False)) = h
     \<and> fst (anchors_minmax_to_whctrs h p False) = Inl ValueError
     \<and> take (length h) (snd (anchors_minmax_to_whctrs h p False)) = h"
proof -
  from anchors_whctrs_to_minmax_copy [OF assms] obtain a' where
    "anchors_whctrs_to_minmax h p False = (Inr (length h), h @ [a'])" by blast
  then have "fst (anchors_whctrs_to_minmax h p False) = Inr (length h)"
    "take (length h) (snd (anchors_whctrs_to_minmax h p False)) = h" by simp_all
  moreover have "fst (anchors_minmax_to_whctrs h p False) = Inl ValueError"
    using assms by (rule anchors_minmax_to_whctrs_fails)
  moreover have "take (length h) (snd (anchors_minmax_to_whctrs h p False)) = h"
    unfolding anchors_minmax_to_whctrs_def using assms(1) by (rule run_on_copy_frame)
  ultimately show ?thesis by blast
qed

theorem conversion_copy_frame_witness:
  "0 < length [boxes_of [[0, 0, 10, 10]]] \<and> is_boxes 1 ([boxes_of [[0, 0, 10, 10]]] ! 0)
   \<and> fst (anchors_minmax_to_whctrs [boxes_of [[0, 0, 10, 10]]] 0 False) = Inl ValueError
   \<and> take 1 (snd (anchors_minmax_to_whctrs [boxes_of [[0, 0, 10, 10]]] 0 False)) = [boxes_of [[0, 0, 10, 10]]]"
proof -
  have h1: "0 < length [boxes_of [[0, 0, 10, 10]]]" by simp
  have h2: "is_boxes 1 ([boxes_of [[0, 0, 10, 10]]] ! 0)" by (simp add: is_boxes_def boxes_of_def)
  from conversion_copy_frame [OF h1 h2] h1 h2 show ?thesis by simp
qed

subsection \<open>Pairwise IoU\<close>

lemma iou_data_nth:
  assumes "i < n1" "j < n2"
  shows "map (\<lambda>p. f (box A (p div n2)) (box B (p mod n2))) [0..<n1 * n2] ! (i * n2 + j)
     = f (box A i) (box B j)"
  using assms pair_index [OF assms] by (simp add: pair_div pair_mod)

text \<open>
  Claim C3 (degenerate pairs). For every pair \<open>(i, j)\<close> of boxes given to
  \<open>numpy_IoU_xyctrs\<close>, if the computed intersection width or height is at most 0, or the
  denominator \<open>aarea + barea - inter\<close> is 0, then the entry of the pair is 0. The call
  returns: the division never meets a zero divisor, since 0.1 has replaced each of them.
\<close>

theorem numpy_IoU_xyctrs_degenerate:
  assumes "is_box_input n1 bb1" "is_box_input n2 bb2"
  shows "\<exists>IoU. numpy_IoU_xyctrs bb1 bb2 = Inr IoU
     \<and> (\<forall>i<n1. \<forall>j<n2.
          w_xyctrs (box bb1 i) (box bb2 j) \<le> 0 \<or> h_xyctrs (box bb1 i) (box bb2 j) \<le> 0
          \<or> denom_xyctrs (box bb1 i) (box bb2 j) = 0
          \<longrightarrow> data IoU ! (i * n2 + j) = 0)"
proof -
  have "iou_xyctrs (box bb1 i) (box bb2 j) = 0"
    if "w_xyctrs (box bb1 i) (box bb2 j) \<le> 0 \<or> h_xyctrs (box bb1 i) (box bb2 j) \<le> 0
          \<or> denom_xyctrs (box bb1 i) (box bb2 j) = 0" for i j
    unfolding iou_xyctrs_def using that by (intro iou_entry_zero) (simp add: denom_xyctrs_def)
  then show ?thesis
    by (simp add: numpy_IoU_xyctrs_eq [OF assms] iou_data_nth)
qed

theorem numpy_IoU_xyctrs_degenerate_witness:
  "is_box_input 1 (NdArray [4] [0, 0, 2, 2]) \<and> is_box_input 2 (boxes_of [[5, 5, 2, 2], [0, 0, 0, 0]])
   \<and> w_xyctrs (box (NdArray [4] [0, 0, 2, 2]) 0) (box (boxes_of [[5, 5, 2, 2], [0, 0, 0, 0]]) 0) \<le> 0
   \<and> (\<exists>IoU. numpy_IoU_xyctrs (NdArray [4] [0, 0, 2, 2]) (boxes_of [[5, 5, 2, 2], [0, 0, 0, 0]]) = Inr IoU
        \<and> data IoU ! 0 = 0)"
proof -
  let ?A = "NdArray [4] [0, 0, 2, 2] :: ndarray" and ?B = "boxes_of [[5, 5, 2, 2], [0, 0, 0, 0]]"
  have h1: "is_box_input 1 ?A" by (simp add: is_box_input_def)
  have h2: "is_box_input 2 ?B" by (simp add: is_box_input_def is_boxes_def boxes_of_def)
  have w: "w_xyctrs (box ?A 0) (box ?B 0) \<le> 0"
    by (simp add: w_xyctrs_def box_def boxes_of_def)
  from numpy_IoU_xyctrs_degenerate [OF h1 h2] obtain IoU where
    r: "numpy_IoU_xyctrs ?A ?B = Inr IoU" and
    z: "\<And>i j. i < 1 \<Longrightarrow> j < 2 \<Longrightarrow> w_xyctrs (box ?A i) (box ?B j) \<le> 0 \<or> h_xyctrs (box ?A i) (box ?B j) \<le> 0
          \<or> denom_xyctrs (box ?A i) (box ?B j) = 0 \<Longrightarrow> data IoU ! (i * 2 + j) = 0"
    by blast
  from z [of 0 0] w have "data IoU ! 0 = 0" by simp
  with h1 h2 w r show ?thesis by blast
qed

text \<open>
  The result is squeezed: a set of one box against a set of two gives the shape \<open>(2,)\<close>,
  not \<open>(1, 2)\<close>.
\<close>

theorem numpy_IoU_shape_counterexample:
  "numpy_IoU_xyctrs (NdArray [4] [0, 0, 2, 2]) (boxes_of [[0, 0, 2, 2], [1, 1, 2, 2]])
     = Inr (NdArray [2] [1, 1/7])
   \<and> shape (NdArray [2] [1, 1/7 :: real]) \<noteq> [1, 2]"
  by code_simp

text \<open>
  Claim C7 (result shape), as amended. For inputs of \<open>n1\<close> and \<open>n2\<close> boxes the result of
  \<open>numpy_IoU_xyctrs\<close> and of \<open>numpy_IoU_minmax\<close> holds \<open>n1 * n2\<close> entries and has the
  shape \<open>(n1, n2)\<close> with every extent 1 removed. So the shape is \<open>(n1, n2)\<close> exactly when
  neither count is 1, and the result is a scalar (the empty shape) exactly when both inputs
  hold one box, given as a single box or as a set of one.
\<close>

theorem numpy_IoU_shape:
  assumes "is_box_input n1 bb1" "is_box_input n2 bb2"
  shows "\<exists>r s. numpy_IoU_xyctrs bb1 bb2 = Inr r \<and> numpy_IoU_minmax bb1 bb2 = Inr s
     \<and> shape r = filter (\<lambda>d. d \<noteq> 1) [n1, n2] \<and> shape s = filter (\<lambda>d. d \<noteq> 1) [n1, n2]
     \<and> length (data r) = n1 * n2 \<and> length (data s) = n1 * n2
     \<and> (shape r = [] \<longleftrightarrow> n1 = 1 \<and> n2 = 1)
     \<and> (shape r = [n1, n2] \<longleftrightarrow> n1 \<noteq> 1 \<and> n2 \<noteq> 1)"
  by (simp add: numpy_IoU_xyctrs_eq [OF assms] numpy_IoU_minmax_eq [OF assms])

theorem numpy_IoU_shape_witness:
  "is_box_input 1 (NdArray [4] [0, 0, 2, 2]) \<and> is_box_input 1 (boxes_of [[1, 1, 2, 2]])
   \<and> (\<exists>r s. numpy_IoU_xyctrs (NdArray [4] [0, 0, 2, 2]) (boxes_of [[1, 1, 2, 2]]) = Inr r
        \<and> numpy_IoU_minmax (NdArray [4] [0, 0, 2, 2]) (boxes_of [[1, 1, 2, 2]]) = Inr s
        \<and> shape r = [] \<and> shape s = [] \<and> length (data r) = 1 \<and> length (data s) = 1)"
proof -
  let ?A = "NdArray [4] [0, 0, 2, 2] :: ndarray" and ?B = "boxes_of [[1, 1, 2, 2]]"
  have h1: "is_box_input 1 ?A" by (simp add: is_box_input_def)
  have h2: "is_box_input 1 ?B" by (simp add: is_box_input_def is_boxes_def boxes_of_def)
  from numpy_IoU_shape [OF h1 h2] obtain r s where
    "numpy_IoU_xyctrs ?A ?B = Inr r" "numpy_IoU_minmax ?A ?B = Inr s"
    "shape r = filter (\<lambda>d. d \<noteq> 1) [1, 1]" "shape s = filter (\<lambda>d. d \<noteq> 1) [1, 1]"
    "length (data r) = 1 * 1" "length (data s) = 1 * 1"
    by blast
  then have "numpy_IoU_xyctrs ?A ?B = Inr r \<and> numpy_IoU_minmax ?A ?B = Inr s
      \<and> shape r = [] \<and> shape s = [] \<and> length (data r) = 1 \<and> length (data s) = 1"
    by simp
  with h1 h2 show ?thesis by blast
qed

text \<open>
  Claim C8 (symmetry). \<open>numpy_IoU_xyctrs(A, B)\<close> is the transpose of
  \<open>numpy_IoU_xyctrs(B, A)\<close>: the shapes are each other's reverse, and the entry of the pair
  \<open>(i, j)\<close> of the first equals the entry of the pair \<open>(j, i)\<close> of the second.
\<close>

theorem numpy_IoU_xyctrs_symmetric:
  assumes "is_box_input n1 A" "is_box_input n2 B"
  shows "\<exists>r s. numpy_IoU_xyctrs A B = Inr r \<and> numpy_IoU_xyctrs B A = Inr s
     \<and> shape r = rev (shape s)
     \<and> (\<forall>i<n1. \<forall>j<n2. data r ! (i * n2 + j) = data s ! (j * n1 + i))"
proof -
  let ?r = "NdArray (filter (\<lambda>d. d \<noteq> 1) [n1, n2])
       (map (\<lambda>p. iou_xyctrs (box A (p div n2)) (box B (p mod n2))) [0..<n1 * n2])"
  let ?s = "NdArray (filter (\<lambda>d. d \<noteq> 1) [n2, n1])
       (map (\<lambda>p. iou_xyctrs (box B (p div n1)) (box A (p mod n1))) [0..<n2 * n1])"
  have r: "numpy_IoU_xyctrs A B = Inr ?r" by (rule numpy_IoU_xyctrs_eq [OF assms])
  have s: "numpy_IoU_xyctrs B A = Inr ?s" by (rule numpy_IoU_xyctrs_eq [OF assms(2,1)])
  have sh: "shape ?r = rev (shape ?s)" by simp
  have e: "data ?r ! (i * n2 + j) = data ?s ! (j * n1 + i)" if "i < n1" "j < n2" for i j
  proof -
    have "data ?r ! (i * n2 + j) = iou_xyctrs (box A i) (box B j)"
      unfolding array.sel using that by (rule iou_data_nth)
    also have "\<dots> = iou_xyctrs (box B j) (box A i)" by (rule iou_xyctrs_commute)
    also have "\<dots> = data ?s ! (j * n1 + i)"
      unfolding array.sel using that(2,1) by (rule iou_data_nth [symmetric])
    finally show ?thesis .
  qed
  from r s sh e show ?thesis by blast
qed

theorem numpy_IoU_xyctrs_symmetric_witness:
  "is_box_input 1 (NdArray [4] [0, 0, 2, 2]) \<and> is_box_input 2 (boxes_of [[0, 0, 2, 2], [1, 1, 2, 2]])
   \<and> (\<exists>r s. numpy_IoU_xyctrs (NdArray [4] [0, 0, 2, 2]) (boxes_of [[0, 0, 2, 2], [1, 1, 2, 2]]) = Inr r
        \<and> numpy_IoU_xyctrs (boxes_of [[0, 0, 2, 2], [1, 1, 2, 2]]) (NdArray [4] [0, 0, 2, 2]) = Inr s
        \<and> shape r = rev (shape s) \<and> data r ! 0 = data s ! 0 \<and> data r ! 1 = data s ! 1)"
proof -
  let ?A = "NdArray [4] [0, 0, 2, 2] :: ndarray" and ?B = "boxes_of [[0, 0, 2, 2], [1, 1, 2, 2]]"
  have h1: "is_box_input 1 ?A" by (simp add: is_box_input_def)
  have h2: "is_box_input 2 ?B" by (simp add: is_box_input_def is_boxes_def boxes_of_def)
  from numpy_IoU_xyctrs_symmetric [OF h1 h2] obtain r s where
    rs: "numpy_IoU_xyctrs ?A ?B = Inr r" "numpy_IoU_xyctrs ?B ?A = Inr s" "shape r = rev (shape s)"
    and e: "\<And>i j. i < 1 \<Longrightarrow> j < 2 \<Longrightarrow> data r ! (i * 2 + j) = data s ! (j * 1 + i)"
    by blast
  from e [of 0 0] e [of 0 1] have "data r ! 0 = data s ! 0" "data r ! 1 = data s ! 1" by simp_all
  with h1 h2 rs show ?thesis by blast
qed









subsection \<open>Pairwise IoU on tensors\<close>







subsection \<open>Loops and the tiled grid\<close>

text \<open>
  The two loops of \<open>pad_anchors\<close>, by induction on the number of passes made, and the
  position of tile \<open>(i, j)\<close>, anchor \<open>a\<close>, coordinate \<open>c\<close> in the flat grid.
\<close>

lemma for_loop_append:
  "for_loop (xs @ ys) body st = bind_err (for_loop xs body st) (for_loop ys body)"
  by (induction xs arbitrary: st) (simp_all add: bind_err_def split: sum.splits)

lemma nth_concat_replicate:
  assumes "length xs = m" "p < r * m"
  shows "concat (replicate r xs) ! p = xs ! (p mod m)"
proof -
  have "concat (replicate r xs) ! p = replicate r xs ! (p div m) ! (p mod m)"
    using assms by (intro nth_concat_uniform) auto
  moreover have "p div m < r" using assms by (simp add: less_mult_imp_div_less)
  ultimately show ?thesis by simp
qed

lemma list4: "length xs = 4 \<Longrightarrow> xs = [xs ! 0, xs ! 1, xs ! 2, xs ! 3]"
  by (auto simp add: length_Suc_conv numeral_eq_Suc)

lemma box_expand:
  "is_boxes n a \<Longrightarrow> i < n \<Longrightarrow> box a i = [box a i ! 0, box a i ! 1, box a i ! 2, box a i ! 3]"
  by (rule list4) (rule box_length)

lemma tile_grid_data:
  assumes "length xs = k * 4"
  shows "tile_data [1, 1, k, 4] [tx, ty, 1, 1] xs = concat (replicate tx (concat (replicate ty xs)))"
proof -
  have one: "chunks 1 (k * 4) xs = [xs]" using assms by (simp add: chunks_def)
  have inner: "tile_data [k, 4] [1, 1] xs = xs"
    using tile_rows_data [OF assms, of 1] by simp
  have mid: "tile_data [1, k, 4] [ty, 1, 1] xs = concat (replicate ty xs)"
  proof -
    have "tile_data [1, k, 4] [ty, 1, 1] xs
      = concat (replicate ty (concat (map (tile_data [k, 4] [1, 1]) (chunks 1 (k * 4) xs))))"
      by (simp only: tile_data.simps prod_list.Cons prod_list.Nil mult_1_right)
    then show ?thesis by (simp only: one inner list.map concat.simps append_Nil2)
  qed
  have "tile_data [1, 1, k, 4] [tx, ty, 1, 1] xs
      = concat (replicate tx (concat (map (tile_data [1, k, 4] [ty, 1, 1]) (chunks 1 (1 * (k * 4)) xs))))"
    by (simp only: tile_data.simps prod_list.Cons prod_list.Nil mult_1_right)
  then show ?thesis by (simp only: mult_1 one mid list.map concat.simps append_Nil2)
qed

lemma np_tile_grid:
  assumes "is_boxes k T"
  shows "np_tile T [tx, ty, 1, 1]
     = NdArray [tx, ty, k, 4] (concat (replicate tx (concat (replicate ty (data T)))))"
proof -
  from assms have sh: "shape T = [k, 4]" and len: "length (data T) = k * 4"
    by (simp_all add: is_boxes_def)
  have "np_tile T [tx, ty, 1, 1] = NdArray [tx, ty, k, 4] (tile_data [1, 1, k, 4] [tx, ty, 1, 1] (data T))"
    by (simp add: np_tile_def ndim_def sh pad_shape_def del: tile_data.simps)
  then show ?thesis by (simp only: tile_grid_data [OF len])
qed

lemma loop_axis0:
  assumes "length ds = tx * ty * k * 4" "m \<le> tx"
  shows "for_loop [0..<m] (\<lambda>i a. iadd_axis0 a i 0 (sx * real i)) (NdArray [tx, ty, k, 4] ds)
     = Inr (NdArray [tx, ty, k, 4]
         (map (\<lambda>p. if p div (ty * k * 4) < m \<and> p mod 4 = 0
                   then ds ! p + sx * real (p div (ty * k * 4)) else ds ! p)
            [0..<tx * ty * k * 4]))"
  using assms(2)
proof (induction m)
  case 0
  have "map (\<lambda>p. ds ! p) [0..<tx * ty * k * 4] = ds"
    using assms(1) map_nth [of ds] by simp
  then show ?case by simp
next
  case (Suc m)
  let ?F = "\<lambda>p. if p div (ty * k * 4) < m \<and> p mod 4 = 0
                   then ds ! p + sx * real (p div (ty * k * 4)) else ds ! p"
  let ?G = "\<lambda>p. if p div (ty * k * 4) < Suc m \<and> p mod 4 = 0
                   then ds ! p + sx * real (p div (ty * k * 4)) else ds ! p"
  from Suc have ih: "for_loop [0..<m] (\<lambda>i a. iadd_axis0 a i 0 (sx * real i)) (NdArray [tx, ty, k, 4] ds)
     = Inr (NdArray [tx, ty, k, 4] (map ?F [0..<tx * ty * k * 4]))"
    and m: "m < tx" by simp_all
  have step: "iadd_axis0 (NdArray [tx, ty, k, 4] (map ?F [0..<tx * ty * k * 4])) m 0 (sx * real m)
     = Inr (NdArray [tx, ty, k, 4] (map ?G [0..<tx * ty * k * 4]))"
  proof -
    have "(if p div (ty * k * 4) = m \<and> p mod 4 = 0
           then map ?F [0..<tx * ty * k * 4] ! p + sx * real m
           else map ?F [0..<tx * ty * k * 4] ! p) = ?G p" if "p < tx * ty * k * 4" for p
      using that by (auto simp add: less_Suc_eq)
    then have "map (\<lambda>p. if p div (ty * k * 4) = m \<and> p mod 4 = 0
           then map ?F [0..<tx * ty * k * 4] ! p + sx * real m
           else map ?F [0..<tx * ty * k * 4] ! p) [0..<tx * ty * k * 4] = map ?G [0..<tx * ty * k * 4]"
      by (intro map_upt_cong)
    with m show ?thesis
      by (simp only: iadd_axis0_def array.sel list.case) simp
  qed
  have "[0..<Suc m] = [0..<m] @ [m]" by simp
  then show ?case
    by (simp only: for_loop_append ih bind_err_def sum.case for_loop.simps step)
qed

lemma loop_axis1:
  assumes "length es = tx * ty * k * 4" "m \<le> ty"
  shows "for_loop [0..<m] (\<lambda>i a. iadd_axis1 a i 1 (sy * real i)) (NdArray [tx, ty, k, 4] es)
     = Inr (NdArray [tx, ty, k, 4]
         (map (\<lambda>p. if p div (k * 4) mod ty < m \<and> p mod 4 = 1
                   then es ! p + sy * real (p div (k * 4) mod ty) else es ! p)
            [0..<tx * ty * k * 4]))"
  using assms(2)
proof (induction m)
  case 0
  have "map (\<lambda>p. es ! p) [0..<tx * ty * k * 4] = es"
    using assms(1) map_nth [of es] by simp
  then show ?case by simp
next
  case (Suc m)
  let ?F = "\<lambda>p. if p div (k * 4) mod ty < m \<and> p mod 4 = 1
                   then es ! p + sy * real (p div (k * 4) mod ty) else es ! p"
  let ?G = "\<lambda>p. if p div (k * 4) mod ty < Suc m \<and> p mod 4 = 1
                   then es ! p + sy * real (p div (k * 4) mod ty) else es ! p"
  from Suc have ih: "for_loop [0..<m] (\<lambda>i a. iadd_axis1 a i 1 (sy * real i)) (NdArray [tx, ty, k, 4] es)
     = Inr (NdArray [tx, ty, k, 4] (map ?F [0..<tx * ty * k * 4]))"
    and m: "m < ty" by simp_all
  have step: "iadd_axis1 (NdArray [tx, ty, k, 4] (map ?F [0..<tx * ty * k * 4])) m 1 (sy * real m)
     = Inr (NdArray [tx, ty, k, 4] (map ?G [0..<tx * ty * k * 4]))"
  proof -
    have "(if p div (k * 4) mod ty = m \<and> p mod 4 = 1
           then map ?F [0..<tx * ty * k * 4] ! p + sy * real m
           else map ?F [0..<tx * ty * k * 4] ! p) = ?G p" if "p < tx * ty * k * 4" for p
      using that by (auto simp add: less_Suc_eq)
    then have "map (\<lambda>p. if p div (k * 4) mod ty = m \<and> p mod 4 = 1
           then map ?F [0..<tx * ty * k * 4] ! p + sy * real m
           else map ?F [0..<tx * ty * k * 4] ! p) [0..<tx * ty * k * 4] = map ?G [0..<tx * ty * k * 4]"
      by (intro map_upt_cong)
    with m show ?thesis
      by (simp only: iadd_axis1_def array.sel list.case) simp
  qed
  have "[0..<Suc m] = [0..<m] @ [m]" by simp
  then show ?case
    by (simp only: for_loop_append ih bind_err_def sum.case for_loop.simps step)
qed

lemma grid_index:
  fixes i j a c k ty :: nat
  assumes "j < ty" "a < k" "c < 4" and p: "p = ((i * ty + j) * k + a) * 4 + c"
  shows "p mod 4 = c" "p div (k * 4) mod ty = j" "p div (ty * k * 4) = i" "p mod (k * 4) = a * 4 + c"
proof -
  have q4: "(q * 4 + c) div 4 = q" "(q * 4 + c) mod 4 = c" for q :: nat
    using assms(3) by simp_all
  have qk: "(q * k + a) div k = q" "(q * k + a) mod k = a" for q :: nat
    using assms(2) by simp_all
  have qt: "(q * ty + j) div ty = q" "(q * ty + j) mod ty = j" for q :: nat
    using assms(1) by simp_all
  have d4: "p div 4 = (i * ty + j) * k + a" unfolding p by (rule q4)
  show m4: "p mod 4 = c" unfolding p by (rule q4)
  have "p div (k * 4) = p div (4 * k)" by (simp only: mult.commute)
  also have "\<dots> = p div 4 div k" by (simp only: div_mult2_eq)
  also have "\<dots> = i * ty + j" unfolding d4 by (rule qk)
  finally have dk: "p div (k * 4) = i * ty + j" .
  show "p div (k * 4) mod ty = j" unfolding dk by (rule qt)
  have "ty * k * 4 = k * 4 * ty" by (simp only: mult.commute mult.left_commute)
  then have "p div (ty * k * 4) = p div (k * 4) div ty" by (simp only: div_mult2_eq)
  also have "\<dots> = i" unfolding dk by (rule qt)
  finally show "p div (ty * k * 4) = i" .
  have "p mod (k * 4) = p mod (4 * k)" by (simp only: mult.commute)
  also have "\<dots> = 4 * (p div 4 mod k) + p mod 4" by (simp only: mod_mult2_eq)
  also have "\<dots> = 4 * a + c" unfolding d4 m4 by (simp only: qk)
  finally show "p mod (k * 4) = a * 4 + c" by (simp only: mult.commute)
qed

lemma grid_bound:
  fixes i j a c k tx ty :: nat
  assumes "i < tx" "j < ty" "a < k" "c < 4"
  shows "((i * ty + j) * k + a) * 4 + c < tx * ty * k * 4"
    and "(i * ty + j) * k + a < k * tx * ty"
proof -
  have "i * ty + j < tx * ty" using assms by (rule_tac pair_index)
  then have "(i * ty + j) * k + a < tx * ty * k" using assms(3) by (rule pair_index)
  then show "(i * ty + j) * k + a < k * tx * ty" by (simp add: mult.commute mult.left_commute)
  from \<open>(i * ty + j) * k + a < tx * ty * k\<close> assms(4)
  show "((i * ty + j) * k + a) * 4 + c < tx * ty * k * 4" by (rule pair_index)
qed

lemma grid_data_nth:
  assumes "length xs = k * 4" "p < tx * ty * k * 4"
  shows "concat (replicate tx (concat (replicate ty xs))) ! p = xs ! (p mod (k * 4))"
proof -
  have len: "length (concat (replicate ty xs)) = ty * (k * 4)"
    using assms by (simp add: length_concat sum_list_replicate)
  have lt: "p < tx * (ty * (k * 4))" using assms by (simp add: mult.assoc)
  have pos: "0 < ty * (k * 4)" using lt by (cases "ty * (k * 4)") auto
  have "concat (replicate tx (concat (replicate ty xs))) ! p
      = concat (replicate ty xs) ! (p mod (ty * (k * 4)))"
    using len lt by (rule nth_concat_replicate)
  also have "\<dots> = xs ! (p mod (ty * (k * 4)) mod (k * 4))"
    using assms(1) pos by (intro nth_concat_replicate) simp_all
  also have "p mod (ty * (k * 4)) mod (k * 4) = p mod (k * 4)"
    by (simp add: mod_mod_cancel)
  finally show ?thesis .
qed

lemma pad_anchors_eq:
  assumes T: "is_boxes k T"
  shows "\<exists>r. pad_anchors T tx ty sx sy = Inr r \<and> is_boxes (k * tx * ty) r
     \<and> (\<forall>i<tx. \<forall>j<ty. \<forall>a<k. \<forall>c<4.
           box r ((i * ty + j) * k + a) ! c
             = (if c = 0 then box T a ! 0 + sx * real i
                else if c = 1 then box T a ! 1 + sy * real j
                else box T a ! c))"
proof -
  let ?L = "tx * ty * k * 4"
  let ?ds = "concat (replicate tx (concat (replicate ty (data T))))"
  let ?F = "\<lambda>p. if p div (ty * k * 4) < tx \<and> p mod 4 = 0
                   then ?ds ! p + sx * real (p div (ty * k * 4)) else ?ds ! p"
  let ?es = "map ?F [0..<?L]"
  let ?G = "\<lambda>p. if p div (k * 4) mod ty < ty \<and> p mod 4 = 1
                   then ?es ! p + sy * real (p div (k * 4) mod ty) else ?es ! p"
  define r where "r = NdArray [k * tx * ty, 4] (map ?G [0..<?L])"
  from T have sh: "shape T = [k, 4]" and len: "length (data T) = k * 4"
    by (simp_all add: is_boxes_def)
  have lds: "length ?ds = ?L"
    using len by (simp add: length_concat sum_list_replicate)
  have l1: "for_loop [0..<tx] (\<lambda>i a. iadd_axis0 a i 0 (sx * real i)) (NdArray [tx, ty, k, 4] ?ds)
     = Inr (NdArray [tx, ty, k, 4] ?es)"
    using lds by (intro loop_axis0) simp_all
  have l2: "for_loop [0..<ty] (\<lambda>i a. iadd_axis1 a i 1 (sy * real i)) (NdArray [tx, ty, k, 4] ?es)
     = Inr (NdArray [tx, ty, k, 4] (map ?G [0..<?L]))"
    by (intro loop_axis1) simp_all
  have rs: "np_reshape (NdArray [tx, ty, k, 4] (map ?G [0..<?L])) [k * tx * ty, 4] = Inr r"
    by (simp add: np_reshape_def r_def mult.commute mult.left_commute)
  have run: "pad_anchors T tx ty sx sy = Inr r"
    unfolding pad_anchors_def
    by (simp only: py_len_def sh list.case bind_err_def sum.case Let_def np_tile_grid [OF T] l1 l2 rs)
  have boxes: "is_boxes (k * tx * ty) r"
    by (simp add: r_def is_boxes_def mult.commute mult.left_commute)
  have val: "box r ((i * ty + j) * k + a) ! c
             = (if c = 0 then box T a ! 0 + sx * real i
                else if c = 1 then box T a ! 1 + sy * real j
                else box T a ! c)"
    if "i < tx" "j < ty" "a < k" "c < 4" for i j a c
  proof -
    define p where "p = ((i * ty + j) * k + a) * 4 + c"
    note ix = grid_index [OF that(2,3,4) p_def]
    have bd: "p < ?L" "(i * ty + j) * k + a < k * tx * ty"
      unfolding p_def using that by (rule grid_bound)+
    have "box r ((i * ty + j) * k + a) ! c = data r ! p"
      unfolding p_def using boxes bd(2) that(4) by (rule box_nth)
    also have "\<dots> = ?G p" using bd(1) by (simp only: r_def array.sel nth_map_upt add_0 diff_zero)
    finally have g: "box r ((i * ty + j) * k + a) ! c = ?G p" .
    have e: "?es ! p = ?F p" using bd(1) by (simp only: nth_map_upt add_0 diff_zero)
    have d: "?ds ! p = box T a ! c"
    proof -
      have "?ds ! p = data T ! (a * 4 + c)"
        using grid_data_nth [OF len bd(1)] by (simp only: ix)
      also have "\<dots> = box T a ! c"
        using T that(3,4) by (rule box_nth [symmetric])
      finally show ?thesis .
    qed
    show ?thesis
      unfolding g e d ix using that by simp
  qed
  from run boxes val show ?thesis by blast
qed

subsection \<open>Anchor generation\<close>







lemma take4_map_upt:
  assumes "m < S"
  shows "take 4 (drop (m * 4) (map f [0..<S * 4])) = [f (m * 4), f (m * 4 + 1), f (m * 4 + 2), f (m * 4 + 3)]"
proof -
  let ?xs = "take 4 (drop (m * 4) (map f [0..<S * 4]))"
  have len: "length ?xs = 4" using assms by simp
  have "?xs ! k = f (m * 4 + k)" if "k < 4" for k
    using that assms by simp
  from this [of 0] this [of 1] this [of 2] this [of 3] list4 [OF len] show ?thesis by simp
qed







subsection \<open>The claims on anchor generation and tiling\<close>


text \<open>A ratio that is not positive makes the call fault.\<close>

lemma generate_anchors_zero_ratio: "generate_anchors 16 [0] [1] = Inl FloatingPointError"
  by (simp add: generate_anchors_def Let_def np_tile_def ndim_def pad_shape_def chunks_def
      np_zeros_def imul_row_from_def getrow_def np_sqrt_def np_recip_def bind_err_def)


text \<open>
  Claim C6 (anchor tiling). For every template of \<open>k\<close> boxes, all tile counts and all
  strides, negative ones too, \<open>pad_anchors\<close> returns \<open>k * n_tiles_x * n_tiles_y\<close> boxes;
  the box of tile \<open>(i, j)\<close> and template anchor \<open>a\<close> is at the index
  \<open>(i * n_tiles_y + j) * k + a\<close> and is the template's box with \<open>step_size_x * i\<close>
  added to its x center and \<open>step_size_y * j\<close> to its y center. The block of the tile
  \<open>(0, 0)\<close> is the template.
\<close>

theorem pad_anchors_tiles:
  assumes "is_boxes k input_anchors"
  shows "\<exists>r. pad_anchors input_anchors n_tiles_x n_tiles_y step_size_x step_size_y = Inr r
     \<and> is_boxes (k * n_tiles_x * n_tiles_y) r
     \<and> (\<forall>i<n_tiles_x. \<forall>j<n_tiles_y. \<forall>a<k.
           box r ((i * n_tiles_y + j) * k + a)
             = [box input_anchors a ! 0 + step_size_x * real i,
                box input_anchors a ! 1 + step_size_y * real j,
                box input_anchors a ! 2, box input_anchors a ! 3])
     \<and> (\<forall>a<k. 0 < n_tiles_x \<and> 0 < n_tiles_y \<longrightarrow> box r a = box input_anchors a)"
proof -
  from pad_anchors_eq [OF assms, of n_tiles_x n_tiles_y step_size_x step_size_y]
  obtain r where run: "pad_anchors input_anchors n_tiles_x n_tiles_y step_size_x step_size_y = Inr r"
    and boxes: "is_boxes (k * n_tiles_x * n_tiles_y) r"
    and val: "\<And>i j a c. i < n_tiles_x \<Longrightarrow> j < n_tiles_y \<Longrightarrow> a < k \<Longrightarrow> c < 4 \<Longrightarrow>
           box r ((i * n_tiles_y + j) * k + a) ! c
             = (if c = 0 then box input_anchors a ! 0 + step_size_x * real i
                else if c = 1 then box input_anchors a ! 1 + step_size_y * real j
                else box input_anchors a ! c)"
    by blast
  have tile: "box r ((i * n_tiles_y + j) * k + a)
             = [box input_anchors a ! 0 + step_size_x * real i,
                box input_anchors a ! 1 + step_size_y * real j,
                box input_anchors a ! 2, box input_anchors a ! 3]"
    if "i < n_tiles_x" "j < n_tiles_y" "a < k" for i j a
  proof -
    let ?q = "(i * n_tiles_y + j) * k + a"
    have q: "?q < k * n_tiles_x * n_tiles_y"
      using grid_bound(2) [OF that, of 0] by simp
    have "box r ?q = [box r ?q ! 0, box r ?q ! 1, box r ?q ! 2, box r ?q ! 3]"
      using boxes q by (rule box_expand)
    also have "box r ?q ! 0 = box input_anchors a ! 0 + step_size_x * real i"
      using val [OF that, of 0] by simp
    also have "box r ?q ! 1 = box input_anchors a ! 1 + step_size_y * real j"
      using val [OF that, of 1] by simp
    also have "box r ?q ! 2 = box input_anchors a ! 2"
      using val [OF that, of 2] by simp
    also have "box r ?q ! 3 = box input_anchors a ! 3"
      using val [OF that, of 3] by simp
    finally show ?thesis .
  qed
  have first: "box r a = box input_anchors a" if "a < k" "0 < n_tiles_x" "0 < n_tiles_y" for a
  proof -
    from tile [OF that(2,3,1)] have "box r a = [box input_anchors a ! 0, box input_anchors a ! 1,
                box input_anchors a ! 2, box input_anchors a ! 3]" by simp
    also have "\<dots> = box input_anchors a"
      using assms that(1) by (rule box_expand [symmetric])
    finally show ?thesis .
  qed
  from run boxes tile first show ?thesis by blast
qed

theorem pad_anchors_tiles_witness:
  "is_boxes 2 (boxes_of [[8, 8, 16, 16], [8, 8, 32, 8]])
   \<and> (\<exists>r. pad_anchors (boxes_of [[8, 8, 16, 16], [8, 8, 32, 8]]) 2 3 16 (-16) = Inr r
        \<and> is_boxes 12 r \<and> box r 11 = [24, -24, 32, 8] \<and> box r 1 = [8, 8, 32, 8])"
proof -
  let ?T = "boxes_of [[8, 8, 16, 16], [8, 8, 32, 8]]"
  have h: "is_boxes 2 ?T" by (simp add: is_boxes_def boxes_of_def)
  have b: "box ?T 1 = [8, 8, 32, 8]" by (simp add: box_def boxes_of_def)
  from pad_anchors_tiles [OF h, of 2 3 16 "-16"]
  have "\<exists>r. pad_anchors ?T 2 3 16 (-16) = Inr r
        \<and> is_boxes 12 r \<and> box r 11 = [24, -24, 32, 8] \<and> box r 1 = [8, 8, 32, 8]"
  proof (elim exE conjE)
    fix r
    assume r: "pad_anchors ?T 2 3 16 (-16) = Inr r" and bx: "is_boxes (2 * 2 * 3) r"
      and v: "\<forall>i<2. \<forall>j<3. \<forall>a<2.
           box r ((i * 3 + j) * 2 + a)
             = [box ?T a ! 0 + 16 * real i, box ?T a ! 1 + (-16) * real j, box ?T a ! 2, box ?T a ! 3]"
      and f: "\<forall>a<2. 0 < (2::nat) \<and> 0 < (3::nat) \<longrightarrow> box r a = box ?T a"
    have "(1::nat) < 2" "(2::nat) < 3" by simp_all
    moreover have idx: "(1 * 3 + 2) * 2 + 1 = (11::nat)" by simp
    ultimately have "box r 11 = [24, -24, 32, 8]"
      using v [rule_format, of 1 2 1, unfolded idx b] by simp
    moreover from f [rule_format, of 1, unfolded b] have "box r 1 = [8, 8, 32, 8]"
      by simp
    ultimately show ?thesis using r bx by (intro exI [of _ r] conjI) simp_all
  qed
  with h show ?thesis by (intro conjI)
qed

end
